theory Spec2Isabelle
  imports Complex_Main "HOL-Library.Multiset" "HOL-Library.AList"
begin

section \<open>Conventions of the embedding\<close>

text \<open>
  The development embeds the scheduling core of the debate system:
  \<^verbatim>\<open>agents/agent.py\<close> (class \<^verbatim>\<open>PhilosopherAgent\<close>),
  \<^verbatim>\<open>orchestrator/orchestrator.py\<close> (class \<^verbatim>\<open>DebateOrchestrator\<close>) and the driver loop of
  \<^verbatim>\<open>main.py\<close>.

  \<^item> Python floats are modelled as \<^typ>\<open>real\<close>: every statement below is about exact
    arithmetic, not about IEEE rounding.
  \<^item> Python strings are \<^typ>\<open>string\<close>; \<^verbatim>\<open>str.lower\<close> and \<^verbatim>\<open>str.split\<close> are modelled on
    ASCII.
  \<^item> Python integers are \<^typ>\<open>int\<close>.
  \<^item> Agents are objects compared by identity. The orchestrator's list \<^verbatim>\<open>self.agents\<close> is
    the store; an agent is referred to by its position in that list.
  \<^item> The random generator is a tape \<open>nat \<Rightarrow> real\<close> of the successive results of
    \<^verbatim>\<open>random.random()\<close>; the language model is a tape of the successive outcomes of
    \<^verbatim>\<open>generate_reply\<close>. Both are threaded through the calls in program order.
  \<^item> \<^verbatim>\<open>system_message\<close> is modelled as a plain attribute of the agent, which the
    assignment in \<^verbatim>\<open>_modify_system_prompt\<close> overwrites.
  \<^item> The prompts (\<^verbatim>\<open>generate_memory_influenced_prompt\<close> and the f-strings around it) and the
    attribute \<^verbatim>\<open>agent.chat_history\<close> that they read are not modelled: they have no effect on
    the agents or the orchestrator, only the language model reads them.
  \<^item> \<^verbatim>\<open>print\<close> is not modelled.
\<close>

section \<open>Strings\<close>

text \<open>\<^verbatim>\<open>str.lower\<close> on ASCII: the capital letters are mapped to the small ones, every other
  character is kept.\<close>

definition lower_char :: "char \<Rightarrow> char" where
  "lower_char c =
     (case map_of (zip ''ABCDEFGHIJKLMNOPQRSTUVWXYZ'' ''abcdefghijklmnopqrstuvwxyz'') c of
        Some l \<Rightarrow> l
      | None \<Rightarrow> c)"

definition lower :: "string \<Rightarrow> string" where
  "lower s = map lower_char s"

fun starts_with :: "string \<Rightarrow> string \<Rightarrow> bool" where
  "starts_with s [] = True"
| "starts_with [] (k # ks) = False"
| "starts_with (c # cs) (k # ks) = (c = k \<and> starts_with cs ks)"

text \<open>\<open>contains k s\<close> is Python's \<^verbatim>\<open>k in s\<close> on strings.\<close>

fun contains :: "string \<Rightarrow> string \<Rightarrow> bool" where
  "contains k [] = (k = [])"
| "contains k (c # cs) = (starts_with (c # cs) k \<or> contains k cs)"

text \<open>The ASCII characters that \<^verbatim>\<open>str.split()\<close> treats as white space: tab, line feed,
  vertical tab, form feed, carriage return, the four separators and the blank.\<close>

definition is_space :: "char \<Rightarrow> bool" where
  "is_space c =
     (c \<in> set [CHR 0x09, CHR 0x0A, CHR 0x0B, CHR 0x0C, CHR 0x0D,
                CHR 0x1C, CHR 0x1D, CHR 0x1E, CHR 0x1F, CHR '' ''])"

text \<open>\<open>split_acc cur s\<close>: \<^verbatim>\<open>str.split()\<close> with the token read so far in \<open>cur\<close>.\<close>

fun split_acc :: "string \<Rightarrow> string \<Rightarrow> string list" where
  "split_acc cur [] = (if cur = [] then [] else [cur])"
| "split_acc cur (c # cs) =
     (if is_space c then (if cur = [] then split_acc [] cs else cur # split_acc [] cs)
      else split_acc (cur @ [c]) cs)"

definition split :: "string \<Rightarrow> string list" where
  "split s = split_acc [] s"

text \<open>Python's \<^verbatim>\<open>xs[-n:]\<close> for a positive literal \<open>n\<close>.\<close>

definition py_last :: "nat \<Rightarrow> 'a list \<Rightarrow> 'a list" where
  "py_last n xs = drop (length xs - n) xs"

text \<open>Python's \<^verbatim>\<open>xs[:i]\<close> for any integer \<open>i\<close>.\<close>

definition py_take :: "int \<Rightarrow> 'a list \<Rightarrow> 'a list" where
  "py_take i xs = (if 0 \<le> i then take (nat i) xs else take (length xs - nat (- i)) xs)"

section \<open>The agent (\<^verbatim>\<open>agents/agent.py\<close>)\<close>

record memory_entry =
  mem_content :: string
  importance :: real
  opinion_weight :: real
  timestamp :: nat
  decay_rounds :: int
  speaker_philosophy :: "string option"

record agent =
  name :: string
  philosophy :: string
  system_message :: string
  initial_system_message :: string
  cooldown :: int
  memory :: "memory_entry list"
  reactivity_threshold :: real
  belief_drift_threshold :: real
  memory_decay_rate :: real

text \<open>An entry of \<^verbatim>\<open>chat_history\<close>: a dict with the keys speaker, content, round and,
  for an agent's response, philosophy.\<close>

record message =
  speaker :: string
  content :: string
  round :: int
  msg_philosophy :: "string option"

text \<open>\<^verbatim>\<open>PhilosopherAgent.__init__\<close>.\<close>

definition new_agent :: "string \<Rightarrow> string \<Rightarrow> string \<Rightarrow> agent" where
  "new_agent nm phil sysmsg =
     \<lparr> name = nm, philosophy = phil, system_message = sysmsg,
       initial_system_message = sysmsg, cooldown = 0, memory = [],
       reactivity_threshold = 0.3, belief_drift_threshold = 0.7,
       memory_decay_rate = 0.05 \<rparr>"

subsection \<open>Keyword tables\<close>

text \<open>Each table is a dict read with \<^verbatim>\<open>.get(key, [])\<close>: a key that is absent yields the
  empty list.\<close>

definition philosophy_keywords :: "string \<Rightarrow> string list" where
  "philosophy_keywords p =
     (if p = ''deontology'' then
        [''duty'', ''moral law'', ''categorical imperative'', ''universal'', ''principle'',
         ''kant'', ''obligation'']
      else if p = ''consequentialism'' then
        [''outcome'', ''consequence'', ''utility'', ''greatest good'', ''result'', ''mill'',
         ''happiness'', ''welfare'']
      else if p = ''confucian'' then
        [''virtue'', ''harmony'', ''social'', ''tradition'', ''ritual'', ''confucius'',
         ''relationship'', ''hierarchy'']
      else if p = ''existentialism'' then
        [''freedom'', ''authenticity'', ''choice'', ''existence'', ''responsibility'',
         ''sartre'', ''nietzsche'', ''meaning'']
      else if p = ''buddhist'' then
        [''suffering'', ''compassion'', ''mindfulness'', ''attachment'', ''enlightenment'',
         ''santideva'', ''interdependence'']
      else [])"

definition disagreement_patterns :: "string list" where
  "disagreement_patterns =
     [''disagree'', ''wrong'', ''incorrect'', ''however'', ''but'', ''reject'', ''false'']"

definition challenge_patterns :: "string \<Rightarrow> string list" where
  "challenge_patterns p =
     (if p = ''deontology'' then [''consequences matter'', ''outcomes'', ''flexible rules'']
      else if p = ''consequentialism'' then
        [''regardless of outcome'', ''duty'', ''absolute rule'']
      else if p = ''confucian'' then
        [''individual freedom'', ''break tradition'', ''social chaos'']
      else if p = ''existentialist'' then
        [''universal truth'', ''objective morality'', ''predetermined'']
      else if p = ''buddhist'' then
        [''permanent self'', ''absolute truth'', ''attachment necessary'']
      else [])"

definition agreement_patterns :: "string \<Rightarrow> string list" where
  "agreement_patterns p =
     (if p = ''deontology'' then
        [''duty'', ''universal law'', ''categorical imperative'', ''moral principle'']
      else if p = ''consequentialism'' then
        [''maximize happiness'', ''best outcome'', ''utility'', ''greater good'']
      else if p = ''confucian'' then
        [''harmony'', ''virtue'', ''proper conduct'', ''social order'']
      else if p = ''existentialist'' then
        [''freedom'', ''authentic'', ''create meaning'', ''individual choice'']
      else if p = ''buddhist'' then
        [''reduce suffering'', ''compassion'', ''interdependence'', ''middle way'']
      else [])"

definition opposing_philosophies :: "string \<Rightarrow> string list" where
  "opposing_philosophies p =
     (if p = ''deontology'' then [''consequentialism'', ''existentialist'']
      else if p = ''consequentialism'' then [''deontology'']
      else if p = ''confucian'' then [''existentialist'']
      else if p = ''existentialist'' then [''deontology'', ''confucian'']
      else if p = ''buddhist'' then []
      else [])"

subsection \<open>Relevant memories\<close>

text \<open>\<^verbatim>\<open>_get_relevant_memories\<close>: the words of the last three messages are collected in a
  set; a memory is relevant when its own set of words shares more than three words with
  it. \<open>common_words\<close> lists the shared words once each, so its length is the size of the
  intersection.\<close>

definition recent_words :: "message list \<Rightarrow> string list" where
  "recent_words recent_messages =
     concat (map (\<lambda>msg. split (lower (content msg))) (py_last 3 recent_messages))"

definition common_words :: "string list \<Rightarrow> memory_entry \<Rightarrow> string list" where
  "common_words keywords m =
     remdups (filter (\<lambda>w. w \<in> set keywords) (split (lower (mem_content m))))"

definition get_relevant_memories :: "agent \<Rightarrow> message list \<Rightarrow> memory_entry list" where
  "get_relevant_memories a recent_messages =
     filter (\<lambda>m. length (common_words (recent_words recent_messages) m) > 3) (memory a)"

subsection \<open>Reactivity\<close>

text \<open>The body of the loop over the recent messages of \<^verbatim>\<open>compute_reactivity\<close>: what one
  message adds to the score. The agent's own messages are skipped.\<close>

definition name_bonus :: "agent \<Rightarrow> string \<Rightarrow> real" where
  "name_bonus a c = (if contains (lower (name a)) c then 0.5 else 0)"

definition keyword_bonus :: "agent \<Rightarrow> string \<Rightarrow> real" where
  "keyword_bonus a c =
     (if list_ex (\<lambda>k. contains k c) (philosophy_keywords (lower (philosophy a)))
      then 0.3 else 0)"

definition question_bonus :: "string \<Rightarrow> real" where
  "question_bonus c = (if contains ''?'' c then 0.2 else 0)"

definition disagreement_bonus :: "string \<Rightarrow> real" where
  "disagreement_bonus c =
     (if list_ex (\<lambda>p. contains p c) disagreement_patterns then 0.2 else 0)"

definition challenge_bonus :: "agent \<Rightarrow> string \<Rightarrow> real" where
  "challenge_bonus a c =
     (if list_ex (\<lambda>k. contains k c) (challenge_patterns (lower (philosophy a)))
      then 0.4 else 0)"

definition message_reactivity :: "agent \<Rightarrow> message \<Rightarrow> real" where
  "message_reactivity a msg =
     (let c = lower (content msg) in
      if speaker msg = name a then 0
      else name_bonus a c + keyword_bonus a c + question_bonus c + disagreement_bonus c
           + challenge_bonus a c)"

text \<open>The value of \<^verbatim>\<open>reactivity_score\<close> just before the jitter is added, for a non-empty
  history.\<close>

definition raw_reactivity :: "agent \<Rightarrow> message list \<Rightarrow> real" where
  "raw_reactivity a chat_history =
     (let recent_messages = py_last 3 chat_history in
      (\<Sum>msg \<leftarrow> recent_messages. message_reactivity a msg)
      + (\<Sum>m \<leftarrow> get_relevant_memories a recent_messages. \<bar>opinion_weight m\<bar> * 0.2))"

type_synonym rng = "nat \<Rightarrow> real"

text \<open>\<^verbatim>\<open>random.random()\<close>: the head of the tape, and the rest of the tape.\<close>

definition random :: "rng \<Rightarrow> real \<times> rng" where
  "random g = (g 0, \<lambda>n. g (Suc n))"

text \<open>\<^verbatim>\<open>random.uniform(a, b)\<close> is \<^verbatim>\<open>a + (b - a) * random()\<close>.\<close>

definition uniform :: "real \<Rightarrow> real \<Rightarrow> rng \<Rightarrow> real \<times> rng" where
  "uniform a b g = (let (r, g') = random g in (a + (b - a) * r, g'))"

text \<open>The tape holds results of \<^verbatim>\<open>random.random()\<close>, which lie in \<open>[0, 1)\<close>.\<close>

definition unit_tape :: "rng \<Rightarrow> bool" where
  "unit_tape g = (\<forall>n. 0 \<le> g n \<and> g n < 1)"

definition compute_reactivity :: "agent \<Rightarrow> message list \<Rightarrow> rng \<Rightarrow> real \<times> rng" where
  "compute_reactivity a chat_history g =
     (if chat_history = [] then (0, g)
      else let (j, g') = uniform 0 0.15 g
           in (min (raw_reactivity a chat_history + j) 1, g'))"

text \<open>\<^verbatim>\<open>should_respond\<close>: an agent on cooldown does not compute its reactivity.\<close>

definition should_respond :: "agent \<Rightarrow> message list \<Rightarrow> rng \<Rightarrow> bool \<times> rng" where
  "should_respond a chat_history g =
     (if cooldown a > 0 then (False, g)
      else let (reactivity, g') = compute_reactivity a chat_history g
           in (reactivity \<ge> reactivity_threshold a, g'))"

subsection \<open>Opinion weight and memory\<close>

definition compelling_phrases :: "string list" where
  "compelling_phrases =
     [''excellent point'', ''i see your point'', ''that'' @ [CHR 0x27] @ ''s true'',
      ''compelling argument'']"

text \<open>\<^verbatim>\<open>_calculate_opinion_weight\<close>: first the loop over the agent's own agreement
  patterns, each one found adding 0.3. The test \<^verbatim>\<open>if speaker_philosophy and ...\<close> is false for
  \<^verbatim>\<open>None\<close> and for the empty string.\<close>

definition agreement_score :: "agent \<Rightarrow> string \<Rightarrow> real" where
  "agreement_score a message_lower =
     (\<Sum>pattern \<leftarrow> agreement_patterns (lower (philosophy a)).
        if contains pattern message_lower then 0.3 else 0)"

definition calculate_opinion_weight :: "agent \<Rightarrow> string \<Rightarrow> string option \<Rightarrow> real" where
  "calculate_opinion_weight a msg sp =
     (let message_lower = lower msg;
          o1 = agreement_score a message_lower;
          o2 = (case sp of
                  None \<Rightarrow> o1
                | Some p \<Rightarrow>
                    if p \<noteq> [] \<and> List.member (opposing_philosophies (lower (philosophy a))) (lower p)
                    then o1 - 0.2 else o1);
          o3 = (if (contains ''disagree'' message_lower \<or> contains ''wrong'' message_lower
                    \<or> contains ''reject'' message_lower)
                   \<and> (contains (lower (name a)) message_lower
                        \<or> contains (lower (philosophy a)) message_lower)
                then o2 - 0.4 else o2);
          o4 = (if list_ex (\<lambda>phrase. contains phrase message_lower) compelling_phrases
                then o3 + 0.2 else o3)
      in max (- 1) (min 1 o4))"

text \<open>\<^verbatim>\<open>_clean_decayed_memories\<close>.\<close>

definition clean_decayed_memories :: "agent \<Rightarrow> agent" where
  "clean_decayed_memories a = a\<lparr>memory := filter (\<lambda>m. importance m > 0.2) (memory a)\<rparr>"

text \<open>The sort key of \<^verbatim>\<open>update_memory\<close>, and \<^verbatim>\<open>sorted(xs, key=key, reverse=True)\<close>: a stable
  sort, entries with equal keys keep their order.\<close>

definition memory_rank :: "memory_entry \<Rightarrow> real" where
  "memory_rank x = importance x + \<bar>opinion_weight x\<bar>"

definition sorted_desc :: "('a \<Rightarrow> real) \<Rightarrow> 'a list \<Rightarrow> 'a list" where
  "sorted_desc key xs = sort_key (\<lambda>x. - key x) xs"

definition new_entry :: "agent \<Rightarrow> string \<Rightarrow> real \<Rightarrow> string option \<Rightarrow> memory_entry" where
  "new_entry a msg importance_score sp =
     \<lparr> mem_content = msg, importance = importance_score,
       opinion_weight = calculate_opinion_weight a msg sp,
       timestamp = length (memory a), decay_rounds = 0, speaker_philosophy = sp \<rparr>"

definition update_memory :: "agent \<Rightarrow> string \<Rightarrow> real \<Rightarrow> string option \<Rightarrow> agent" where
  "update_memory a msg importance_score sp =
     (let a1 = a\<lparr>memory := memory a @ [new_entry a msg importance_score sp]\<rparr>;
          a2 = clean_decayed_memories a1
      in if length (memory a2) > 15
         then a2\<lparr>memory := take 15 (sorted_desc memory_rank (memory a2))\<rparr>
         else a2)"

text \<open>\<^verbatim>\<open>_apply_belief_decay\<close>: the body of the loop, and the loop.\<close>

definition decay_entry :: "real \<Rightarrow> memory_entry \<Rightarrow> memory_entry" where
  "decay_entry rate m =
     (let rounds = decay_rounds m + 1;
          decay_factor = 1 - rate * real_of_int rounds
      in m\<lparr> decay_rounds := rounds,
            importance := importance m * max 0.1 decay_factor,
            opinion_weight := (if \<bar>opinion_weight m\<bar> > 0.1 then opinion_weight m * 0.95
                               else opinion_weight m) \<rparr>)"

definition apply_belief_decay :: "agent \<Rightarrow> agent" where
  "apply_belief_decay a = a\<lparr>memory := map (decay_entry (memory_decay_rate a)) (memory a)\<rparr>"

subsection \<open>Belief drift\<close>

text \<open>Decimal digits of a natural number, and the format \<^verbatim>\<open>:.2f\<close> of a number: two
  decimals, rounded half to even.\<close>

definition digit_char :: "nat \<Rightarrow> char" where
  "digit_char d = ''0123456789'' ! (d mod 10)"

fun dec :: "nat \<Rightarrow> string" where
  "dec n = (if n < 10 then [digit_char n] else dec (n div 10) @ [digit_char (n mod 10)])"

declare dec.simps [simp del]

definition round_half_even :: "real \<Rightarrow> nat" where
  "round_half_even y =
     (let n = nat \<lfloor>y\<rfloor>; f = y - real n
      in if f < 1 / 2 then n else if 1 / 2 < f then n + 1 else if even n then n else n + 1)"

definition format_2f :: "real \<Rightarrow> string" where
  "format_2f x =
     (let n = round_half_even (\<bar>x\<bar> * 100)
      in (if x < 0 then ''-'' else []) @ dec (n div 100) @ ''.''
         @ [digit_char (n mod 100 div 10), digit_char (n mod 10)])"

definition nl :: string where
  "nl = [CHR 0x0A]"

text \<open>The text that \<^verbatim>\<open>_modify_system_prompt\<close> builds, and the assignment it makes: the
  system message becomes the initial system message followed by this one text.\<close>

definition modification_prompt :: "agent \<Rightarrow> string \<Rightarrow> real \<Rightarrow> string" where
  "modification_prompt a influenced_philosophy influence_score =
     nl @ ''        '' @ nl
     @ ''        [BELIEF EVOLUTION: Through extended dialogue and reflection, you have found merit in certain aspects of ''
     @ influenced_philosophy @ '' philosophy. '' @ nl
     @ ''        While maintaining your core '' @ philosophy a
     @ '' framework, you now incorporate insights about '' @ influenced_philosophy
     @ '' perspectives '' @ nl
     @ ''        with an openness score of '' @ format_2f influence_score
     @ ''. You may reference these complementary ideas when they strengthen your arguments.]''
     @ nl @ ''        ''"

definition modify_system_prompt :: "agent \<Rightarrow> string \<Rightarrow> real \<Rightarrow> agent" where
  "modify_system_prompt a influenced_philosophy influence_score =
     a\<lparr>system_message :=
         initial_system_message a @ modification_prompt a influenced_philosophy influence_score\<rparr>"

text \<open>The dict \<^verbatim>\<open>philosophy_scores\<close> of \<^verbatim>\<open>_check_belief_drift\<close>, as an association list in
  insertion order (the order in which \<^verbatim>\<open>.items()\<close> yields it). A memory counts when its
  \<^verbatim>\<open>speaker_philosophy\<close> is neither \<^verbatim>\<open>None\<close> nor empty; \<open>origin\<close> is then the key it adds
  to.\<close>

fun add_score :: "(string \<times> real) list \<Rightarrow> string \<Rightarrow> real \<Rightarrow> (string \<times> real) list" where
  "add_score [] k v = [(k, 0 + v)]"
| "add_score ((k', s) # rest) k v =
     (if k' = k then (k', s + v) # rest else (k', s) # add_score rest k v)"

definition origin :: "memory_entry \<Rightarrow> string option" where
  "origin m =
     (case speaker_philosophy m of
        None \<Rightarrow> None
      | Some p \<Rightarrow> if p \<noteq> [] then Some (lower p) else None)"

definition score_step :: "(string \<times> real) list \<Rightarrow> memory_entry \<Rightarrow> (string \<times> real) list" where
  "score_step scores m =
     (case origin m of
        None \<Rightarrow> scores
      | Some phil \<Rightarrow> add_score scores phil (opinion_weight m * importance m))"

definition philosophy_scores :: "memory_entry list \<Rightarrow> (string \<times> real) list" where
  "philosophy_scores mems = foldl score_step [] mems"

text \<open>The test of the second loop of \<^verbatim>\<open>_check_belief_drift\<close>.\<close>

definition drifts :: "agent \<Rightarrow> string \<times> real \<Rightarrow> bool" where
  "drifts a ps = (fst ps \<noteq> lower (philosophy a) \<and> snd ps > belief_drift_threshold a)"

definition drift_step :: "agent \<Rightarrow> string \<times> real \<Rightarrow> agent" where
  "drift_step a ps = (if drifts a ps then modify_system_prompt a (fst ps) (snd ps) else a)"

definition check_belief_drift :: "agent \<Rightarrow> agent" where
  "check_belief_drift a =
     (if memory a = [] then a else foldl drift_step a (philosophy_scores (memory a)))"

subsection \<open>Cooldown, stance, reflection\<close>

definition set_cooldown :: "int \<Rightarrow> agent \<Rightarrow> agent" where
  "set_cooldown rounds a = a\<lparr>cooldown := rounds\<rparr>"

definition reduce_cooldown :: "agent \<Rightarrow> agent" where
  "reduce_cooldown a = (if cooldown a > 0 then a\<lparr>cooldown := cooldown a - 1\<rparr> else a)"

definition get_philosophical_stance :: "agent \<Rightarrow> string \<Rightarrow> string" where
  "get_philosophical_stance a topic =
     (let p = lower (philosophy a) in
      if p = ''deontology'' then
        ''From a deontological perspective on '' @ topic
        @ '', we must ask: could this action be universalized as a moral law? Our duty is clear regardless of consequences...''
      else if p = ''consequentialism'' then
        ''Regarding '' @ topic
        @ '', we must focus on outcomes. What action produces the greatest happiness for the greatest number? The consequences determine the moral worth...''
      else if p = ''confucian'' then
        ''When examining '' @ topic
        @ '', we must consider how this affects social harmony and relationships. What would the exemplary person do in this context?...''
      else if p = ''existentialist'' then
        ''Concerning '' @ topic
        @ '', we must reject imposed moral systems. Each individual must authentically choose their own values. Who has the authority to dictate morality?...''
      else if p = ''buddhist'' then
        ''From a Buddhist perspective on '' @ topic
        @ '', we should ask: how does this increase or decrease suffering? All phenomena are interdependent and empty of inherent existence...''
      else ''My philosophical view on '' @ topic @ '' is...'')"

text \<open>What \<^verbatim>\<open>generate_reply\<close> returns: a dict with a content, a string, or another value
  (given by its \<^verbatim>\<open>str\<close>). The language model is a tape of outcomes, \<open>None\<close> for a call
  that raises; each call reads the head of the tape.\<close>

datatype reply = RDict string | RStr string | ROther string

type_synonym llm = "nat \<Rightarrow> reply option"

definition generate_reply :: "llm \<Rightarrow> reply option \<times> llm" where
  "generate_reply l = (l 0, \<lambda>n. l (Suc n))"

definition reply_text :: "reply \<Rightarrow> string" where
  "reply_text r = (case r of RDict c \<Rightarrow> c | RStr s \<Rightarrow> s | ROther s \<Rightarrow> s)"

definition fallback_reflection :: "agent \<Rightarrow> string" where
  "fallback_reflection a =
     name a @ '' reflects: This debate highlighted the importance of '' @ philosophy a
     @ '' principles in addressing complex moral questions. The exchange of ideas has been valuable for understanding different ethical frameworks.''"

text \<open>\<^verbatim>\<open>reflect\<close>. The prompt is built from the transcript and the memories without any
  effect on the agent, and only the language model reads it; it is not modelled. The decay
  comes first; the drift check runs only when the call succeeded.\<close>

definition reflect :: "agent \<Rightarrow> llm \<Rightarrow> (string \<times> agent) \<times> llm" where
  "reflect a l =
     (let a1 = apply_belief_decay a;
          (response, l') = generate_reply l
      in case response of
           Some r \<Rightarrow> ((name a1 @ '' reflects: '' @ reply_text r, check_belief_drift a1), l')
         | None \<Rightarrow> ((fallback_reflection a1, a1), l'))"

section \<open>The random module\<close>

datatype error = ValueError | IndexError

text \<open>\<^verbatim>\<open>_randbelow(n)\<close>, idealised: the integer part of \<open>n\<close> times a sample of \<open>[0, 1)\<close>.\<close>

definition randbelow :: "nat \<Rightarrow> rng \<Rightarrow> nat \<times> rng" where
  "randbelow n g = (let (r, g') = random g in (nat \<lfloor>r * real n\<rfloor>, g'))"

text \<open>\<^verbatim>\<open>random.choice(seq)\<close>: IndexError on an empty sequence, raised before the generator
  is read.\<close>

definition random_choice :: "'a list \<Rightarrow> rng \<Rightarrow> (error + 'a) \<times> rng" where
  "random_choice xs g =
     (if xs = [] then (Inl IndexError, g)
      else let (j, g') = randbelow (length xs) g in (Inr (xs ! j), g'))"

text \<open>\<^verbatim>\<open>random.sample(population, k)\<close>, by the pool algorithm that CPython uses for a
  population of at most 21 elements: the element drawn is replaced by the last one of
  the pool, and the pool shrinks by one.\<close>

fun sample_loop :: "nat \<Rightarrow> 'a list \<Rightarrow> rng \<Rightarrow> 'a list \<times> rng" where
  "sample_loop 0 pool g = ([], g)"
| "sample_loop (Suc k) pool g =
     (let (j, g1) = randbelow (length pool) g;
          (rest, g2) = sample_loop k (butlast (pool[j := last pool])) g1
      in (pool ! j # rest, g2))"

definition random_sample :: "'a list \<Rightarrow> int \<Rightarrow> rng \<Rightarrow> (error + 'a list) \<times> rng" where
  "random_sample population k g =
     (if \<not> (0 \<le> k \<and> k \<le> int (length population)) then (Inl ValueError, g)
      else let (xs, g') = sample_loop (nat k) population g in (Inr xs, g'))"

text \<open>\<^verbatim>\<open>random.choices(population, weights=weights)[0]\<close>. The cumulative weights are
  searched for the first one that exceeds \<^verbatim>\<open>random() * total\<close>, the last index being the
  bound of the search. (CPython bisects; on weights that are not negative the cumulative
  weights are sorted and the bisection finds this index.) A total that is not positive is
  a ValueError, raised before the generator is read.\<close>

fun bisect_cum :: "real list \<Rightarrow> real \<Rightarrow> real \<Rightarrow> nat" where
  "bisect_cum [] acc x = 0"
| "bisect_cum [w] acc x = 0"
| "bisect_cum (w # v # ws) acc x =
     (if x < acc + w then 0 else Suc (bisect_cum (v # ws) (acc + w) x))"

definition random_choices1 :: "'a list \<Rightarrow> real list \<Rightarrow> rng \<Rightarrow> (error + 'a) \<times> rng" where
  "random_choices1 population weights g =
     (let total = sum_list weights in
      if total \<le> 0 then (Inl ValueError, g)
      else let (r, g') = random g
           in (Inr (population ! bisect_cum weights 0 (r * total)), g'))"

section \<open>The orchestrator (\<^verbatim>\<open>orchestrator/orchestrator.py\<close>)\<close>

record orchestrator =
  orch_name :: string
  agents :: "agent list"
  chat_history :: "message list"
  current_topic :: "string option"
  round_count :: int
  max_rounds :: int
  debate_active :: bool
  speakers_per_round :: int

text \<open>\<^verbatim>\<open>DebateOrchestrator.__init__\<close> and \<^verbatim>\<open>add_agent\<close>.\<close>

definition new_orchestrator :: orchestrator where
  "new_orchestrator =
     \<lparr> orch_name = ''Moderator'', agents = [], chat_history = [], current_topic = None,
       round_count = 0, max_rounds = 10, debate_active = False, speakers_per_round = 2 \<rparr>"

definition add_agent :: "agent \<Rightarrow> orchestrator \<Rightarrow> orchestrator" where
  "add_agent a orc = orc\<lparr>agents := agents orc @ [a]\<rparr>"

text \<open>What an f-string prints for an integer and for the topic.\<close>

definition str_int :: "int \<Rightarrow> string" where
  "str_int i = (if i < 0 then ''-'' @ dec (nat (- i)) else dec (nat i))"

definition str_topic :: "string option \<Rightarrow> string" where
  "str_topic t = (case t of None \<Rightarrow> ''None'' | Some s \<Rightarrow> s)"

fun join :: "string \<Rightarrow> string list \<Rightarrow> string" where
  "join sep [] = []"
| "join sep [x] = x"
| "join sep (x # y # ys) = x @ sep @ join sep (y # ys)"

definition opening_message :: "orchestrator \<Rightarrow> string \<Rightarrow> string" where
  "opening_message orc topic =
     nl @ ''        Welcome to our philosophical debate on: '' @ [CHR 0x22] @ topic
     @ [CHR 0x22] @ nl @ ''        '' @ nl
     @ ''        We have '' @ str_int (int (length (agents orc)))
     @ '' distinguished philosophers joining us today:'' @ nl
     @ ''        ''
     @ join '', '' (map (\<lambda>a. name a @ '' ('' @ philosophy a @ '')'') (agents orc)) @ nl
     @ ''        '' @ nl
     @ ''        Let us begin with opening statements.'' @ nl @ ''        ''"

definition start_debate :: "string \<Rightarrow> orchestrator \<Rightarrow> orchestrator" where
  "start_debate topic orc =
     orc\<lparr> current_topic := Some topic, round_count := 0, debate_active := True,
          agents := map (\<lambda>a. a\<lparr>cooldown := 0\<rparr>) (agents orc),
          chat_history := [\<lparr> speaker = orch_name orc, content = opening_message orc topic,
                             round = 0, msg_philosophy = None \<rparr>] \<rparr>"

subsection \<open>Scoring and selection\<close>

text \<open>The loop of \<^verbatim>\<open>collect_intent_to_speak\<close>, from the agent at position \<open>i\<close> on. Every
  agent's reactivity is computed; an agent on cooldown is left out of the scores and its
  cooldown is reduced.\<close>

fun collect_loop ::
  "message list \<Rightarrow> nat \<Rightarrow> agent list \<Rightarrow> rng \<Rightarrow> (nat \<times> real) list \<times> agent list \<times> rng" where
  "collect_loop hist i [] g = ([], [], g)"
| "collect_loop hist i (a # as) g =
     (let (reactivity_score, g1) = compute_reactivity a hist g;
          (intent_scores, as', g2) = collect_loop hist (Suc i) as g1
      in if cooldown a = 0 then ((i, reactivity_score) # intent_scores, a # as', g2)
         else (intent_scores, reduce_cooldown a # as', g2))"

definition collect_intent_to_speak ::
  "orchestrator \<Rightarrow> rng \<Rightarrow> (nat \<times> real) list \<times> orchestrator \<times> rng" where
  "collect_intent_to_speak orc g =
     (let (intent_scores, as', g') = collect_loop (chat_history orc) 0 (agents orc) g
      in (intent_scores, orc\<lparr>agents := as'\<rparr>, g'))"

text \<open>The loop of the weighted selection, \<open>k\<close> rounds of it.\<close>

fun weighted_draws :: "nat \<Rightarrow> (nat \<times> real) list \<Rightarrow> rng \<Rightarrow> (error + nat list) \<times> rng" where
  "weighted_draws 0 remaining_candidates g = (Inr [], g)"
| "weighted_draws (Suc k) remaining_candidates g =
     (if remaining_candidates = [] then (Inr [], g)
      else
        let ags = map fst remaining_candidates;
            weights = map (\<lambda>(a, score). score + 0.1) remaining_candidates
        in case random_choices1 ags weights g of
             (Inl e, g1) \<Rightarrow> (Inl e, g1)
           | (Inr chosen_agent, g1) \<Rightarrow>
               (case weighted_draws k
                       (filter (\<lambda>(a, s). a \<noteq> chosen_agent) remaining_candidates) g1 of
                  (Inl e, g2) \<Rightarrow> (Inl e, g2)
                | (Inr selected, g2) \<Rightarrow> (Inr (chosen_agent # selected), g2)))"

text \<open>\<^verbatim>\<open>select_speakers\<close>. The list of scores is sorted in place, so the caller's list is
  \<open>sorted_desc snd intent_scores\<close> afterwards.\<close>

definition select_speakers ::
  "orchestrator \<Rightarrow> (nat \<times> real) list \<Rightarrow> rng \<Rightarrow> (error + nat list) \<times> rng" where
  "select_speakers orc intent_scores g =
     (if intent_scores = [] then (Inr [], g)
      else
        let sorted_scores = sorted_desc snd intent_scores;
            n = int (length sorted_scores);
            num_speakers = min (speakers_per_round orc) n
        in if n \<ge> num_speakers then
             let top_candidates = py_take (min (num_speakers * 2) n) sorted_scores;
                 weights = map snd top_candidates
             in if sum_list weights = 0
                then random_sample (map fst top_candidates) num_speakers g
                else weighted_draws (nat num_speakers) top_candidates g
           else (Inr (map fst sorted_scores), g))"

subsection \<open>Generation\<close>

text \<open>What \<^verbatim>\<open>generate_agent_responses\<close> records for one speaker, given the outcome of the
  call of the language model. The prompt is only read by the language model and is not
  modelled.\<close>

definition agent_response :: "agent \<Rightarrow> string option \<Rightarrow> reply option \<Rightarrow> string" where
  "agent_response a topic response =
     (case response of
        Some r \<Rightarrow>
          (let response_text = reply_text r
           in if starts_with response_text (name a) then response_text
              else name a @ '': '' @ response_text)
      | None \<Rightarrow> name a @ '': '' @ get_philosophical_stance a (str_topic topic))"

fun generate_loop ::
  "agent list \<Rightarrow> string option \<Rightarrow> nat list \<Rightarrow> llm \<Rightarrow> (nat \<times> string) list \<times> llm" where
  "generate_loop ags topic [] l = ([], l)"
| "generate_loop ags topic (i # speakers) l =
     (let (response, l1) = generate_reply l;
          (responses, l2) = generate_loop ags topic speakers l1
      in ((i, agent_response (ags ! i) topic response) # responses, l2))"

definition generate_agent_responses ::
  "orchestrator \<Rightarrow> nat list \<Rightarrow> llm \<Rightarrow> (nat \<times> string) list \<times> llm" where
  "generate_agent_responses orc speakers l =
     generate_loop (agents orc) (current_topic orc) speakers l"

subsection \<open>Memory update\<close>

definition calculate_message_importance :: "string \<Rightarrow> agent \<Rightarrow> real" where
  "calculate_message_importance msg a =
     (let i1 = (if contains (lower (philosophy a)) (lower msg) then 0.5 + 0.3 else 0.5);
          i2 = (if contains ''?'' msg then i1 + 0.2 else i1);
          i3 = (if list_ex (\<lambda>word. contains word (lower msg))
                     [''wrong'', ''disagree'', ''incorrect'', ''false'', ''reject'']
                then i2 + 0.2 else i2)
      in min i3 1)"

text \<open>The first loop of \<^verbatim>\<open>update_memory_and_reflection\<close>: the response is appended to the
  history and the speaker's cooldown is set.\<close>

definition record_response :: "orchestrator \<Rightarrow> nat \<times> string \<Rightarrow> orchestrator" where
  "record_response orc ar =
     (let a = agents orc ! fst ar
      in orc\<lparr> chat_history := chat_history orc @
                 [\<lparr> speaker = name a, content = snd ar, round = round_count orc,
                    msg_philosophy = Some (philosophy a) \<rparr>],
              agents := (agents orc)[fst ar := set_cooldown 2 a] \<rparr>)"

text \<open>The second loop: every agent but the speaker stores the response.\<close>

definition observe_response :: "agent list \<Rightarrow> nat \<times> string \<Rightarrow> agent list" where
  "observe_response ags ar =
     map (\<lambda>(j, a). if j \<noteq> fst ar
                    then update_memory a (snd ar) (calculate_message_importance (snd ar) a)
                           (Some (philosophy (ags ! fst ar)))
                    else a)
         (enumerate 0 ags)"

definition update_memory_and_reflection ::
  "orchestrator \<Rightarrow> (nat \<times> string) list \<Rightarrow> orchestrator" where
  "update_memory_and_reflection orc responses =
     (let orc1 = foldl record_response orc responses
      in orc1\<lparr>agents := foldl observe_response (agents orc1) responses\<rparr>)"

subsection \<open>Continuation, moderator, end of the debate\<close>

definition should_continue_debate :: "orchestrator \<Rightarrow> rng \<Rightarrow> bool \<times> orchestrator \<times> rng" where
  "should_continue_debate orc g =
     (if round_count orc \<ge> max_rounds orc then (False, orc, g)
      else if \<not> debate_active orc then (False, orc, g)
      else
        let (intent_scores, orc', g') = collect_intent_to_speak orc g;
            engaged_agents = length (filter (\<lambda>(_, score). score > 0.1) intent_scores)
        in (engaged_agents > 0, orc', g'))"

definition interventions :: "orchestrator \<Rightarrow> string \<Rightarrow> string list" where
  "interventions orc phil =
     [''Let'' @ [CHR 0x27] @ ''s hear from a different philosophical perspective. How might ''
        @ phil @ '' approach this?'',
      ''Can someone provide a concrete example to illustrate this point?'',
      ''I notice we have some disagreement here. Can we identify the core issue?'',
      ''How might we find common ground between these positions?'',
      ''What are the practical implications of this philosophical stance?'',
      ''We'' @ [CHR 0x27] @ ''re '' @ str_int (round_count orc)
        @ '' rounds into our discussion of '' @ [CHR 0x27] @ str_topic (current_topic orc)
        @ [CHR 0x27] @ ''. What new insights have emerged?'']"

definition generate_moderator_intervention :: "orchestrator \<Rightarrow> rng \<Rightarrow> (error + string) \<times> rng" where
  "generate_moderator_intervention orc g =
     (case random_choice (agents orc) g of
        (Inl e, g1) \<Rightarrow> (Inl e, g1)
      | (Inr a, g1) \<Rightarrow> random_choice (interventions orc (philosophy a)) g1)"

record summary =
  sum_topic :: "string option"
  sum_rounds :: int
  sum_participants :: "(string \<times> string) list"
  sum_total_messages :: nat
  sum_chat_history :: "message list"
  sum_reflections :: "(string \<times> string) list"

text \<open>The loop of \<^verbatim>\<open>end_debate\<close> over the agents: each one reflects, in order. The dict of
  reflections is keyed by the agent's name.\<close>

fun reflect_loop :: "agent list \<Rightarrow> llm \<Rightarrow> (string \<times> string) list \<times> agent list \<times> llm" where
  "reflect_loop [] l = ([], [], l)"
| "reflect_loop (a # as) l =
     (let ((text, a'), l1) = reflect a l;
          (reflections, as', l2) = reflect_loop as l1
      in ((name a, text) # reflections, a' # as', l2))"

definition dict_of :: "(string \<times> string) list \<Rightarrow> (string \<times> string) list" where
  "dict_of kvs = foldl (\<lambda>d kv. AList.update (fst kv) (snd kv) d) [] kvs"

definition end_debate :: "orchestrator \<Rightarrow> llm \<Rightarrow> summary \<times> orchestrator \<times> llm" where
  "end_debate orc l =
     (let (reflections, as', l') = reflect_loop (agents orc) l
      in (\<lparr> sum_topic = current_topic orc, sum_rounds = round_count orc,
            sum_participants = map (\<lambda>a. (name a, philosophy a)) (agents orc),
            sum_total_messages = length (chat_history orc),
            sum_chat_history = chat_history orc,
            sum_reflections = dict_of reflections \<rparr>,
          orc\<lparr>debate_active := False, agents := as'\<rparr>, l'))"

subsection \<open>One round\<close>

record round_data =
  rd_round :: int
  rd_speakers :: "string list"
  rd_responses :: "(nat \<times> string) list"
  rd_intent_scores :: "(nat \<times> real) list"
  rd_continue :: bool

datatype round_result = Ended summary | Round round_data

type_synonym world = "orchestrator \<times> rng \<times> llm"

definition ended :: "orchestrator \<Rightarrow> rng \<Rightarrow> llm \<Rightarrow> (error + round_result) \<times> world" where
  "ended orc g l = (let (s, orc', l') = end_debate orc l in (Inr (Ended s), orc', g, l'))"

text \<open>The moderator's entry of \<^verbatim>\<open>run_debate_round\<close>, added when \<^verbatim>\<open>random.random() < 0.3\<close>.\<close>

definition moderator_step :: "orchestrator \<Rightarrow> rng \<Rightarrow> (error + orchestrator) \<times> rng" where
  "moderator_step orc g =
     (let (r, g1) = random g
      in if r < 0.3 then
           (case generate_moderator_intervention orc g1 of
              (Inl e, g2) \<Rightarrow> (Inl e, g2)
            | (Inr moderator_comment, g2) \<Rightarrow>
                (Inr (orc\<lparr>chat_history := chat_history orc @
                        [\<lparr> speaker = orch_name orc, content = moderator_comment,
                           round = round_count orc, msg_philosophy = None \<rparr>]\<rparr>), g2))
         else (Inr orc, g1))"

text \<open>Steps 5 and 6 of \<^verbatim>\<open>run_debate_round\<close> and the result of the round, for the speakers
  selected.\<close>

definition speak :: 
  "orchestrator \<Rightarrow> (nat \<times> real) list \<Rightarrow> nat list \<Rightarrow> rng \<Rightarrow> llm \<Rightarrow> (error + round_result) \<times> world" where
  "speak orc intent_scores selected_speakers g l =
     (let (responses, l1) = generate_agent_responses orc selected_speakers l;
          orc1 = update_memory_and_reflection orc responses
      in case moderator_step orc1 g of
           (Inl e, g1) \<Rightarrow> (Inl e, orc1, g1, l1)
         | (Inr orc2, g1) \<Rightarrow>
             (let (cont, orc3, g2) = should_continue_debate orc2 g1
              in (Inr (Round \<lparr> rd_round = round_count orc2,
                               rd_speakers = map (\<lambda>i. name (agents orc2 ! i)) selected_speakers,
                               rd_responses = responses,
                               rd_intent_scores = intent_scores,
                               rd_continue = cont \<rparr>),
                  orc3, g2, l1)))"

definition run_debate_round :: "orchestrator \<Rightarrow> rng \<Rightarrow> llm \<Rightarrow> (error + round_result) \<times> world" where
  "run_debate_round orc g l =
     (let (cont, orc1, g1) = should_continue_debate orc g
      in if \<not> cont then ended orc1 g1 l
         else
           let orc2 = orc1\<lparr>round_count := round_count orc1 + 1\<rparr>;
               (intent_scores, orc3, g2) = collect_intent_to_speak orc2 g1
           in if intent_scores = [] then ended orc3 g2 l
              else
                case select_speakers orc3 intent_scores g2 of
                  (Inl e, g3) \<Rightarrow> (Inl e, orc3, g3, l)
                | (Inr selected_speakers, g3) \<Rightarrow>
                    if selected_speakers = [] then ended orc3 g3 l
                    else speak orc3 (sorted_desc snd intent_scores) selected_speakers g3 l)"

section \<open>The driver (\<^verbatim>\<open>main.py\<close>)\<close>

text \<open>\<^verbatim>\<open>create_philosophers\<close>. The system prompts come from \<^verbatim>\<open>prompts/system_prompts.py\<close>;
  they are opaque texts, taken as the parameter \<open>get_prompt\<close>.\<close>

definition create_philosophers :: "(string \<Rightarrow> string) \<Rightarrow> agent list" where
  "create_philosophers get_prompt =
     [new_agent ''Kant'' ''deontology'' (get_prompt ''kant''),
      new_agent ''Mill'' ''consequentialism'' (get_prompt ''mill''),
      new_agent ''Confucian_Sage'' ''confucian'' (get_prompt ''confucian''),
      new_agent ''Existentialist'' ''existentialist'' (get_prompt ''existentialist''),
      new_agent ''Santideva'' ''buddhist'' (get_prompt ''santideva'')]"

text \<open>\<^verbatim>\<open>result.get('continue', True)\<close>: the summary that ends a debate has no such key.\<close>

definition result_continue :: "round_result \<Rightarrow> bool" where
  "result_continue r = (case r of Ended s \<Rightarrow> True | Round d \<Rightarrow> rd_continue d)"

text \<open>The \<^verbatim>\<open>while\<close> loop of \<^verbatim>\<open>run_debate\<close>, with its local counter \<open>round_count\<close>. The
  continuation check is evaluated first, then the counter is compared.\<close>

function run_loop ::
  "int \<Rightarrow> int \<Rightarrow> orchestrator \<Rightarrow> rng \<Rightarrow> llm \<Rightarrow> error option \<times> world" where
  "run_loop max_r round_cnt orc g l =
     (case should_continue_debate orc g of
        (cont, orc1, g1) \<Rightarrow>
          if cont \<and> round_cnt < max_r then
            (case run_debate_round orc1 g1 l of
               (Inl e, w) \<Rightarrow> (Some e, w)
             | (Inr result, orc2, g2, l2) \<Rightarrow>
                 if \<not> result_continue result then (None, orc2, g2, l2)
                 else run_loop max_r (round_cnt + 1) orc2 g2 l2)
          else (None, orc1, g1, l))"
  by pat_completeness auto
termination
  by (relation "measure (\<lambda>(max_r, round_cnt, orc, g, l). nat (max_r - round_cnt))") auto

declare run_loop.simps [simp del]

text \<open>\<^verbatim>\<open>run_debate\<close>, from the agents created to the summary. An exception leaves the
  function (it is printed and raised again).\<close>

definition run_debate ::
  "(string \<Rightarrow> string) \<Rightarrow> string \<Rightarrow> int \<Rightarrow> rng \<Rightarrow> llm \<Rightarrow> (error + summary) \<times> world" where
  "run_debate get_prompt topic max_r g l =
     (let philosophers = create_philosophers get_prompt;
          orc0 = new_orchestrator\<lparr>max_rounds := max_r, speakers_per_round := 2\<rparr>;
          orc1 = foldl (\<lambda>orc a. add_agent a orc) orc0 philosophers;
          orc2 = start_debate topic orc1
      in case run_loop max_r 0 orc2 g l of
           (Some e, w) \<Rightarrow> (Inl e, w)
         | (None, orc3, g3, l3) \<Rightarrow>
             (let (s, orc4, l4) = end_debate orc3 l3 in (Inr s, orc4, g3, l4)))"

section \<open>Example data\<close>

definition ex_kant :: agent where
  "ex_kant = new_agent ''Kant'' ''deontology'' ''You are Kant.''"

definition ex_mill :: agent where
  "ex_mill = new_agent ''Mill'' ''consequentialism'' ''You are Mill.''"

definition ex_msg :: message where
  "ex_msg = \<lparr> speaker = ''Mill'', content = ''Kant speaks of Duty'', round = 1,
             msg_philosophy = Some ''consequentialism'' \<rparr>"

definition ex_tape :: rng where
  "ex_tape = (\<lambda>_. 1 / 2)"

definition ex_existentialist :: agent where
  "ex_existentialist = create_philosophers (\<lambda>_. ''prompt'') ! 3"

definition ex_freedom :: message where
  "ex_freedom = \<lparr> speaker = ''Kant'',
                 content = ''Freedom and authenticity: choice gives existence meaning'',
                 round = 1, msg_philosophy = Some ''deontology'' \<rparr>"

text \<open>Kant with two memories: the first shares four words with \<open>ex_msg\<close>, the second
  three; and a short message that names Kant and holds one of his trigger keywords.\<close>

definition ex_kant_mem :: agent where
  "ex_kant_mem =
     ex_kant\<lparr>memory :=
       [\<lparr> mem_content = ''kant speaks of duty'', importance = 0.5, opinion_weight = - 0.5,
          timestamp = 0, decay_rounds = 0, speaker_philosophy = Some ''consequentialism'' \<rparr>,
        \<lparr> mem_content = ''kant speaks of law'', importance = 0.5, opinion_weight = 0.9,
          timestamp = 1, decay_rounds = 0, speaker_philosophy = Some ''confucian'' \<rparr>]\<rparr>"

definition ex_short :: message where
  "ex_short = \<lparr> speaker = ''Mill'', content = ''Kant: duty'', round = 1,
               msg_philosophy = Some ''consequentialism'' \<rparr>"

section \<open>The invariant of the memory\<close>





text \<open>An agent with one memory that was stored with importance 0.5 and has decayed five
  times, and an agent with two memories of strong agreement, from two other
  philosophies.\<close>

definition ex_aged :: agent where
  "ex_aged =
     ex_kant\<lparr>memory :=
       [\<lparr> mem_content = ''A plain remark'', importance = 8721 / 40000, opinion_weight = 0,
          timestamp = 0, decay_rounds = 5, speaker_philosophy = Some ''confucian'' \<rparr>]\<rparr>"

definition ex_drift :: agent where
  "ex_drift =
     ex_kant\<lparr>memory :=
       [\<lparr> mem_content = ''duty universal law categorical imperative'', importance = 1,
          opinion_weight = 0.9, timestamp = 0, decay_rounds = 0,
          speaker_philosophy = Some ''confucian'' \<rparr>,
        \<lparr> mem_content = ''duty universal law categorical imperative'', importance = 1,
          opinion_weight = 0.9, timestamp = 1, decay_rounds = 0,
          speaker_philosophy = Some ''Buddhist'' \<rparr>]\<rparr>"

section \<open>Notions used to state the selection\<close>

text \<open>The weights of one weighted draw, as \<^verbatim>\<open>select_speakers\<close> computes them, and the pool
  of candidates: the first \<open>min (2 * k) n\<close> of the scores sorted by falling score.\<close>

definition draw_weights :: "(nat \<times> real) list \<Rightarrow> real list" where
  "draw_weights remaining = map (\<lambda>(a, score). score + 0.1) remaining"


text \<open>An orchestrator with two agents, the first of them on cooldown, and a list of
  scores.\<close>

definition ex_orc :: orchestrator where
  "ex_orc = new_orchestrator\<lparr> agents := [ex_kant\<lparr>cooldown := 2\<rparr>, ex_mill],
                               chat_history := [ex_msg], current_topic := Some ''lying'',
                               debate_active := True \<rparr>"



section \<open>Notions and data used to state the properties of a round\<close>

text \<open>What \<^verbatim>\<open>reduce_cooldown\<close> does to the cooldown.\<close>

definition reduced :: "int \<Rightarrow> int" where
  "reduced c = (if c > 0 then c - 1 else c)"

text \<open>A debate of three agents, a language model that always answers, one whose first call
  fails, and the result of the first round of that debate.\<close>

definition ex_sage :: agent where
  "ex_sage = new_agent ''Confucian_Sage'' ''confucian'' ''You are a sage.''"

definition ex_panel :: orchestrator where
  "ex_panel = new_orchestrator\<lparr> agents := [ex_kant, ex_mill, ex_sage],
       chat_history := [\<lparr> speaker = ''Moderator'', content = ''Kant, Mill: is lying wrong?'',
                           round = 0, msg_philosophy = None \<rparr>],
       current_topic := Some ''lying'', debate_active := True \<rparr>"

definition ex_llm :: llm where
  "ex_llm = (\<lambda>_. Some (RStr ''Is harmony a duty?''))"


definition ex_rd :: round_data where
  "ex_rd = \<lparr> rd_round = 1, rd_speakers = [''Mill'', ''Kant''],
             rd_responses = [(1, ''Mill: Is harmony a duty?''), (0, ''Kant: Is harmony a duty?'')],
             rd_intent_scores = [(0, 1), (1, 1), (2, 19 / 40)], rd_continue = True \<rparr>"

section \<open>Properties of the reactivity score\<close>

lemma message_reactivity_nonneg: "0 \<le> message_reactivity a m"
  by (simp add: message_reactivity_def Let_def name_bonus_def keyword_bonus_def
      question_bonus_def disagreement_bonus_def challenge_bonus_def)

lemma sum_list_nonneg_real:
  "(\<And>x. x \<in> set xs \<Longrightarrow> 0 \<le> f x) \<Longrightarrow> (0::real) \<le> (\<Sum>x\<leftarrow>xs. f x)"
  by (induction xs) auto

lemma raw_reactivity_nonneg: "0 \<le> raw_reactivity a h"
  unfolding raw_reactivity_def Let_def
  by (intro add_nonneg_nonneg sum_list_nonneg_real) (simp_all add: message_reactivity_nonneg)

lemma compute_reactivity_nonneg:
  assumes "0 \<le> g 0"
  shows "0 \<le> fst (compute_reactivity a h g)"
proof -
  have "0 \<le> raw_reactivity a h + 0.15 * g 0"
    using assms raw_reactivity_nonneg [of a h] by simp
  then show ?thesis
    by (simp add: compute_reactivity_def uniform_def random_def)
qed

lemma compute_reactivity_tape:
  "snd (compute_reactivity a h g) = (if h = [] then g else (\<lambda>n. g (Suc n)))"
  by (simp add: compute_reactivity_def uniform_def random_def)

text \<open>
  C3. The score of \<^verbatim>\<open>compute_reactivity\<close> lies in \<open>[0, 1]\<close> for every agent and every
  history, whenever the jitter comes from \<^verbatim>\<open>random.random()\<close> (a tape of samples of
  \<open>[0, 1)\<close>). For the empty history the score is exactly 0 and the generator is not
  read; otherwise exactly one sample is read. The function returns a score and the
  generator only: the agent and the history are read, not changed.
\<close>

theorem reactivity_score_range:
  assumes "unit_tape g"
  shows "0 \<le> fst (compute_reactivity a h g) \<and> fst (compute_reactivity a h g) \<le> 1
         \<and> compute_reactivity a [] g = (0, g)
         \<and> snd (compute_reactivity a h g) = (if h = [] then g else (\<lambda>n. g (Suc n)))"
proof -
  have "0 \<le> g 0" using assms by (simp add: unit_tape_def)
  then have "0 \<le> fst (compute_reactivity a h g)"
    by (rule compute_reactivity_nonneg)
  moreover have "fst (compute_reactivity a h g) \<le> 1"
    by (simp add: compute_reactivity_def uniform_def random_def)
  moreover have "compute_reactivity a [] g = (0, g)"
    by (simp add: compute_reactivity_def)
  ultimately show ?thesis
    using compute_reactivity_tape [of a h g] by simp
qed

theorem reactivity_score_range_witness:
  "unit_tape ex_tape
   \<and> 0 \<le> fst (compute_reactivity ex_kant [ex_msg] ex_tape)
   \<and> fst (compute_reactivity ex_kant [ex_msg] ex_tape) \<le> 1
   \<and> fst (compute_reactivity ex_kant [ex_msg] ex_tape) = 0.875
   \<and> compute_reactivity ex_kant [] ex_tape = (0, ex_tape)"
proof -
  have h: "unit_tape ex_tape" by (simp add: unit_tape_def ex_tape_def)
  have v: "fst (compute_reactivity ex_kant [ex_msg] ex_tape) = 0.875" by code_simp
  from reactivity_score_range [OF h, of ex_kant "[ex_msg]"] h v show ?thesis by blast
qed

lemma py_last_idem: "py_last n (py_last n xs) = py_last n xs"
  by (simp add: py_last_def)

lemma common_words_card:
  "length (common_words kws e) = card (set kws \<inter> set (split (lower (mem_content e))))"
proof -
  have "set (filter (\<lambda>w. w \<in> set kws) (split (lower (mem_content e))))
        = set kws \<inter> set (split (lower (mem_content e)))" by auto
  then show ?thesis
    by (simp add: common_words_def length_remdups_card_conv)
qed

lemma set_recent_words:
  "set (recent_words h) = (\<Union>msg \<in> set (py_last 3 h). set (split (lower (content msg))))"
  by (simp add: recent_words_def)

lemma relevant_sum_scale:
  "(\<Sum>e \<leftarrow> es. \<bar>opinion_weight e\<bar> * 0.2) = (\<Sum>e \<leftarrow> es. 0.2 * \<bar>opinion_weight e\<bar>)"
  by (simp add: mult.commute)

text \<open>
  C7. When the history is one message of another speaker that names the agent and holds
  one of the agent's trigger keywords, but no question mark, no disagreement pattern and
  no challenge pattern, and no memory is relevant, the score before jitter and clamping is
  0.5 + 0.3 = 0.8. In general that score is the sum over the last three messages plus
  \<open>0.2 * \<bar>opinion_weight\<bar>\<close> for every memory whose set of lower-case words shares more than
  three words with the words of the last three messages.
\<close>

theorem raw_reactivity_accumulation:
  assumes "speaker m \<noteq> name a"
    and "contains (lower (name a)) (lower (content m))"
    and "list_ex (\<lambda>k. contains k (lower (content m)))
           (philosophy_keywords (lower (philosophy a)))"
    and "\<not> contains ''?'' (lower (content m))"
    and "\<not> list_ex (\<lambda>p. contains p (lower (content m))) disagreement_patterns"
    and "\<not> list_ex (\<lambda>k. contains k (lower (content m)))
             (challenge_patterns (lower (philosophy a)))"
    and "get_relevant_memories a [m] = []"
  shows "raw_reactivity a [m] = 0.5 + 0.3 \<and> raw_reactivity a [m] = 0.8
       \<and> raw_reactivity a h
           = (\<Sum>msg \<leftarrow> py_last 3 h. message_reactivity a msg)
             + (\<Sum>e \<leftarrow> filter
                         (\<lambda>e. card ((\<Union>msg \<in> set (py_last 3 h). set (split (lower (content msg))))
                                    \<inter> set (split (lower (mem_content e)))) > 3)
                         (memory a).
                  0.2 * \<bar>opinion_weight e\<bar>)"
proof -
  have one: "py_last 3 [m] = [m]" by (simp add: py_last_def)
  have msg: "message_reactivity a m = 0.8"
    using assms(1-6)
    by (simp add: message_reactivity_def Let_def name_bonus_def keyword_bonus_def
        question_bonus_def disagreement_bonus_def challenge_bonus_def)
  have scen: "raw_reactivity a [m] = 0.8"
    using assms(7) msg by (simp add: raw_reactivity_def Let_def one)
  have gen: "get_relevant_memories a (py_last 3 h)
      = filter (\<lambda>e. card ((\<Union>msg \<in> set (py_last 3 h). set (split (lower (content msg))))
                           \<inter> set (split (lower (mem_content e)))) > 3) (memory a)"
    unfolding get_relevant_memories_def common_words_card set_recent_words py_last_idem ..
  show ?thesis
    using scen by (simp add: raw_reactivity_def Let_def gen relevant_sum_scale)
qed

theorem raw_reactivity_accumulation_witness:
  "speaker ex_short \<noteq> name ex_kant_mem
   \<and> get_relevant_memories ex_kant_mem [ex_short] = []
   \<and> raw_reactivity ex_kant_mem [ex_short] = 0.8
   \<and> map mem_content (get_relevant_memories ex_kant_mem [ex_msg]) = [''kant speaks of duty'']
   \<and> raw_reactivity ex_kant_mem [ex_msg] = 0.8 + 0.2 * 0.5"
proof -
  have h1: "speaker ex_short \<noteq> name ex_kant_mem" by code_simp
  have h2: "contains (lower (name ex_kant_mem)) (lower (content ex_short))" by code_simp
  have h3: "list_ex (\<lambda>k. contains k (lower (content ex_short)))
              (philosophy_keywords (lower (philosophy ex_kant_mem)))" by code_simp
  have h4: "\<not> contains ''?'' (lower (content ex_short))" by code_simp
  have h5: "\<not> list_ex (\<lambda>p. contains p (lower (content ex_short))) disagreement_patterns"
    by code_simp
  have h6: "\<not> list_ex (\<lambda>k. contains k (lower (content ex_short)))
                (challenge_patterns (lower (philosophy ex_kant_mem)))" by code_simp
  have h7: "get_relevant_memories ex_kant_mem [ex_short] = []" by code_simp
  have r: "map mem_content (get_relevant_memories ex_kant_mem [ex_msg])
           = [''kant speaks of duty'']" by code_simp
  have v: "raw_reactivity ex_kant_mem [ex_msg] = 0.8 + 0.2 * 0.5" by code_simp
  from raw_reactivity_accumulation [OF h1 h2 h3 h4 h5 h6 h7, of "[ex_msg]"] h7 h1 r v
  show ?thesis by blast
qed

lemma lower_existentialist: "lower ''existentialist'' = ''existentialist''"
  by code_simp

text \<open>
  C10. A tag that is not a key of a keyword table yields the empty list, and an empty list
  adds nothing to the reactivity or to the opinion weight. The table of trigger keywords
  has the key "existentialism"; the tables of challenge patterns, of agreement patterns and
  of opposing philosophies have the key "existentialist", and that is the tag of the agent
  that \<^verbatim>\<open>create_philosophers\<close> makes. For this agent the trigger keywords never add 0.3.
\<close>

theorem existentialist_trigger_table_key:
  "(p \<notin> {''deontology'', ''consequentialism'', ''confucian'', ''existentialism'', ''buddhist''}
      \<longrightarrow> philosophy_keywords p = [])
   \<and> (p \<notin> {''deontology'', ''consequentialism'', ''confucian'', ''existentialist'', ''buddhist''}
      \<longrightarrow> challenge_patterns p = [] \<and> agreement_patterns p = []
          \<and> opposing_philosophies p = [])
   \<and> (philosophy_keywords (lower (philosophy a)) = [] \<longrightarrow> keyword_bonus a c = 0)
   \<and> (challenge_patterns (lower (philosophy a)) = [] \<longrightarrow> challenge_bonus a c = 0)
   \<and> (agreement_patterns (lower (philosophy a)) = [] \<longrightarrow> agreement_score a c = 0)
   \<and> philosophy_keywords ''existentialism'' \<noteq> []
   \<and> philosophy_keywords ''existentialist'' = []
   \<and> challenge_patterns ''existentialist'' \<noteq> []
   \<and> agreement_patterns ''existentialist'' \<noteq> []
   \<and> opposing_philosophies ''existentialist'' \<noteq> []
   \<and> map philosophy (create_philosophers get_prompt)
       = [''deontology'', ''consequentialism'', ''confucian'', ''existentialist'', ''buddhist'']
   \<and> keyword_bonus (create_philosophers get_prompt ! 3) c = 0"
proof -
  have k: "philosophy_keywords ''existentialist'' = []"
    by (simp add: philosophy_keywords_def)
  have "philosophy (create_philosophers get_prompt ! 3) = ''existentialist''"
    by (simp add: create_philosophers_def new_agent_def)
  then have e: "keyword_bonus (create_philosophers get_prompt ! 3) c = 0"
    by (simp add: keyword_bonus_def lower_existentialist k)
  have t1: "p \<notin> {''deontology'', ''consequentialism'', ''confucian'', ''existentialism'',
                  ''buddhist''} \<longrightarrow> philosophy_keywords p = []"
    by (simp add: philosophy_keywords_def)
  have t2: "p \<notin> {''deontology'', ''consequentialism'', ''confucian'', ''existentialist'',
                  ''buddhist''}
      \<longrightarrow> challenge_patterns p = [] \<and> agreement_patterns p = [] \<and> opposing_philosophies p = []"
    by (simp add: challenge_patterns_def agreement_patterns_def opposing_philosophies_def)
  have t3: "philosophy_keywords ''existentialism'' \<noteq> []
   \<and> challenge_patterns ''existentialist'' \<noteq> []
   \<and> agreement_patterns ''existentialist'' \<noteq> []
   \<and> opposing_philosophies ''existentialist'' \<noteq> []"
    by (simp add: philosophy_keywords_def challenge_patterns_def agreement_patterns_def
        opposing_philosophies_def)
  have t4: "map philosophy (create_philosophers get_prompt)
       = [''deontology'', ''consequentialism'', ''confucian'', ''existentialist'', ''buddhist'']"
    by (simp add: create_philosophers_def new_agent_def)
  show ?thesis
    using k e t1 t2 t3 t4
    by (simp add: keyword_bonus_def challenge_bonus_def agreement_score_def)
qed

theorem existentialist_trigger_table_key_witness:
  "''existentialist'' \<notin> {''deontology'', ''consequentialism'', ''confucian'',
                          ''existentialism'', ''buddhist''}
   \<and> philosophy_keywords ''existentialist'' = []
   \<and> ''stoic'' \<notin> {''deontology'', ''consequentialism'', ''confucian'', ''existentialist'',
                   ''buddhist''}
   \<and> challenge_patterns ''stoic'' = []
   \<and> keyword_bonus ex_existentialist (lower (content ex_freedom)) = 0
   \<and> raw_reactivity ex_existentialist [ex_freedom] = 0
   \<and> raw_reactivity (ex_existentialist\<lparr>philosophy := ''existentialism''\<rparr>) [ex_freedom] = 0.3"
proof -
  have a: "raw_reactivity ex_existentialist [ex_freedom] = 0" by code_simp
  have b: "raw_reactivity (ex_existentialist\<lparr>philosophy := ''existentialism''\<rparr>) [ex_freedom]
           = 0.3"
    by code_simp
  have c: "''stoic'' \<notin> {''deontology'', ''consequentialism'', ''confucian'',
                         ''existentialist'', ''buddhist''}"
    by simp
  have d: "''existentialist'' \<notin> {''deontology'', ''consequentialism'', ''confucian'',
                                  ''existentialism'', ''buddhist''}"
    by simp
  note t = existentialist_trigger_table_key [where p = "''stoic''" and a = ex_existentialist
      and c = "lower (content ex_freedom)" and get_prompt = "\<lambda>_. ''prompt''"]
  have e: "keyword_bonus ex_existentialist (lower (content ex_freedom)) = 0"
    using t by (simp only: ex_existentialist_def)
  have f: "challenge_patterns ''stoic'' = []" using t c by blast
  have g: "philosophy_keywords ''existentialist'' = []" using t by blast
  show ?thesis
    using a b c d e f g by blast
qed

section \<open>Properties of the memory\<close>




lemma sorted_desc_set: "set (sorted_desc key xs) = set xs"
  by (simp add: sorted_desc_def)




lemma update_memory_candidates:
  "memory (update_memory a msg imp sp) =
     (let cands = filter (\<lambda>m. importance m > 0.2) (memory a @ [new_entry a msg imp sp])
      in if length cands > 15 then take 15 (sorted_desc memory_rank cands) else cands)"
  by (simp add: update_memory_def clean_decayed_memories_def Let_def)


lemma update_memory_set:
  "set (memory (update_memory a msg imp sp))
     \<subseteq> set (filter (\<lambda>m. importance m > 0.2) (memory a @ [new_entry a msg imp sp]))"
proof -
  define cands where
    "cands = filter (\<lambda>m. importance m > 0.2) (memory a @ [new_entry a msg imp sp])"
  have "set (take 15 (sorted_desc memory_rank cands)) \<subseteq> set cands"
    using set_take_subset [of 15 "sorted_desc memory_rank cands"] by (simp add: sorted_desc_set)
  then have "set (if length cands > 15 then take 15 (sorted_desc memory_rank cands) else cands)
             \<subseteq> set cands"
    by simp
  then show ?thesis
    unfolding update_memory_candidates Let_def cands_def .
qed









section \<open>Properties of the belief drift and of the decay\<close>

lemma ex_aged_reachable:
  "(apply_belief_decay ^^ 5) (update_memory ex_kant ''A plain remark'' 0.5 (Some ''confucian''))
     = ex_aged"
  by code_simp

lemma ex_drift_reachable:
  "update_memory
     (update_memory ex_kant ''duty universal law categorical imperative'' 1 (Some ''confucian''))
     ''duty universal law categorical imperative'' 1 (Some ''Buddhist'') = ex_drift"
  by code_simp

lemma drift_step_fields:
  "philosophy (drift_step a ps) = philosophy a"
  "belief_drift_threshold (drift_step a ps) = belief_drift_threshold a"
  "initial_system_message (drift_step a ps) = initial_system_message a"
  "memory (drift_step a ps) = memory a"
  "cooldown (drift_step a ps) = cooldown a"
  "name (drift_step a ps) = name a"
  by (simp_all add: drift_step_def modify_system_prompt_def)

lemma foldl_drift_step_fields:
  "philosophy (foldl drift_step a pss) = philosophy a
   \<and> belief_drift_threshold (foldl drift_step a pss) = belief_drift_threshold a
   \<and> initial_system_message (foldl drift_step a pss) = initial_system_message a
   \<and> memory (foldl drift_step a pss) = memory a
   \<and> cooldown (foldl drift_step a pss) = cooldown a
   \<and> name (foldl drift_step a pss) = name a"
  by (induction pss arbitrary: a) (simp_all add: drift_step_fields)



lemma check_belief_drift_fields:
  "memory (check_belief_drift a) = memory a \<and> cooldown (check_belief_drift a) = cooldown a
   \<and> name (check_belief_drift a) = name a \<and> philosophy (check_belief_drift a) = philosophy a
   \<and> initial_system_message (check_belief_drift a) = initial_system_message a"
  using foldl_drift_step_fields [of a "philosophy_scores (memory a)"]
  by (simp add: check_belief_drift_def)


















lemma check_belief_drift_memory: "memory (check_belief_drift a) = memory a"
  using check_belief_drift_fields [of a] by simp

lemma reflect_memory: "memory (snd (fst (reflect a l))) = memory (apply_belief_decay a)"
  by (simp add: reflect_def Let_def generate_reply_def check_belief_drift_memory
      split: option.splits)

lemma update_memory_importance:
  assumes "e \<in> set (memory (update_memory a msg imp sp))"
  shows "importance e > 0.2"
proof -
  from assms update_memory_set [of a msg imp sp]
  have "e \<in> set (filter (\<lambda>m. importance m > 0.2) (memory a @ [new_entry a msg imp sp]))"
    by blast
  then show ?thesis by (simp only: set_filter mem_Collect_eq)
qed

text \<open>
  C1 (as the code has it). A decay step, \<^verbatim>\<open>_apply_belief_decay\<close>, adds 1 to the age of every
  entry, multiplies its importance by \<open>max 0.1 (1 - rate * age)\<close> for the new age (the rate
  is 0.05) and multiplies its opinion weight by 0.95 when its absolute value exceeds 0.1.
  The step removes no entry: the memory keeps its length. \<^verbatim>\<open>reflect\<close> runs the step once
  and changes the memory in no other way. Entries of importance at most 0.2 are removed by
  \<^verbatim>\<open>update_memory\<close>: after it, every entry has an importance above 0.2.
\<close>

theorem decay_step_keeps_entries:
  "memory (apply_belief_decay a) = map (decay_entry (memory_decay_rate a)) (memory a)
   \<and> decay_rounds (decay_entry r m) = decay_rounds m + 1
   \<and> importance (decay_entry r m)
       = importance m * max 0.1 (1 - r * real_of_int (decay_rounds m + 1))
   \<and> opinion_weight (decay_entry r m)
       = (if \<bar>opinion_weight m\<bar> > 0.1 then opinion_weight m * 0.95 else opinion_weight m)
   \<and> mem_content (decay_entry r m) = mem_content m
   \<and> speaker_philosophy (decay_entry r m) = speaker_philosophy m
   \<and> memory_decay_rate (new_agent n ph sm) = 0.05
   \<and> length (memory (apply_belief_decay a)) = length (memory a)
   \<and> memory (snd (fst (reflect a l))) = memory (apply_belief_decay a)
   \<and> (\<forall>e \<in> set (memory (update_memory a msg imp sp)). importance e > 0.2)"
  using reflect_memory [of a l] update_memory_importance [of _ a msg imp sp]
  by (simp add: apply_belief_decay_def decay_entry_def Let_def new_agent_def)

lemma ex_aged_decayed:
  "memory (apply_belief_decay ex_aged) =
     [\<lparr> mem_content = ''A plain remark'', importance = 61047 / 400000, opinion_weight = 0,
        timestamp = 0, decay_rounds = 6, speaker_philosophy = Some ''confucian'' \<rparr>]"
  by (simp add: apply_belief_decay_def decay_entry_def ex_aged_def ex_kant_def new_agent_def)

theorem decay_step_keeps_entries_witness:
  "map importance (memory (apply_belief_decay ex_aged)) = [61047 / 400000]
   \<and> map decay_rounds (memory (apply_belief_decay ex_aged)) = [6]
   \<and> length (memory (apply_belief_decay ex_aged)) = length (memory ex_aged)
   \<and> memory (snd (fst (reflect ex_aged (\<lambda>_. None)))) = memory (apply_belief_decay ex_aged)"
proof -
  note t = decay_step_keeps_entries [where a = ex_aged and l = "\<lambda>_. None"]
  have r: "memory (snd (fst (reflect ex_aged (\<lambda>_. None)))) = memory (apply_belief_decay ex_aged)"
    using t by blast
  have l: "length (memory (apply_belief_decay ex_aged)) = length (memory ex_aged)"
    using t by blast
  show ?thesis
    using r l by (simp add: ex_aged_decayed)
qed

theorem decay_eviction_counterexample:
  "map importance (memory ex_aged) = [8721 / 40000]
   \<and> map importance (memory (apply_belief_decay ex_aged)) = [61047 / 400000]
   \<and> (61047 / 400000 :: real) \<le> 0.2
   \<and> map importance (memory (snd (fst (reflect ex_aged (\<lambda>_. None))))) = [61047 / 400000]
   \<and> \<not> (\<forall>e \<in> set (memory (apply_belief_decay ex_aged)). importance e > 0.2)"
  by (simp add: reflect_memory ex_aged_decayed) (simp add: ex_aged_def)

section \<open>Properties of the scoring phase and of the selection\<close>

lemma unit_tape_tail: "unit_tape g \<Longrightarrow> unit_tape (\<lambda>n. g (Suc n))"
  by (simp add: unit_tape_def)

lemma compute_reactivity_unit:
  "unit_tape g \<Longrightarrow> unit_tape (snd (compute_reactivity a h g))"
  by (simp add: compute_reactivity_tape unit_tape_tail)

lemma collect_loop_agents:
  "fst (snd (collect_loop hist i as g)) = map reduce_cooldown as"
proof (induction as arbitrary: i g)
  case Nil
  then show ?case by simp
next
  case (Cons a as)
  obtain s g1 where c: "compute_reactivity a hist g = (s, g1)" by (cases "compute_reactivity a hist g")
  obtain sc as' g2 where r: "collect_loop hist (Suc i) as g1 = (sc, as', g2)"
    by (cases "collect_loop hist (Suc i) as g1") auto
  have "as' = map reduce_cooldown as" using Cons.IH [of "Suc i" g1] r by simp
  then show ?case
    using c r by (simp add: reduce_cooldown_def)
qed

lemma collect_loop_scores:
  "map fst (fst (collect_loop hist i as g))
     = map (\<lambda>j. i + j) (filter (\<lambda>j. cooldown (as ! j) = 0) [0..<length as])"
proof (induction as arbitrary: i g)
  case Nil
  then show ?case by simp
next
  case (Cons a as)
  obtain s g1 where c: "compute_reactivity a hist g = (s, g1)" by (cases "compute_reactivity a hist g")
  obtain sc as' g2 where r: "collect_loop hist (Suc i) as g1 = (sc, as', g2)"
    by (cases "collect_loop hist (Suc i) as g1") auto
  have ih: "map fst sc = map (\<lambda>j. Suc i + j) (filter (\<lambda>j. cooldown (as ! j) = 0) [0..<length as])"
    using Cons.IH [of "Suc i" g1] r by simp
  have up: "[0..<length (a # as)] = 0 # map Suc [0..<length as]"
    by (simp add: upt_conv_Cons map_Suc_upt del: upt_Suc)
  have f: "filter (\<lambda>j. cooldown ((a # as) ! j) = 0) (map Suc [0..<length as])
           = map Suc (filter (\<lambda>j. cooldown (as ! j) = 0) [0..<length as])"
    by (simp add: filter_map comp_def)
  show ?case
    unfolding up using c r ih f by (simp add: comp_def del: upt_Suc)
qed

lemma collect_loop_unit:
  "unit_tape g \<Longrightarrow> unit_tape (snd (snd (collect_loop hist i as g)))"
proof (induction as arbitrary: i g)
  case Nil
  then show ?case by simp
next
  case (Cons a as)
  obtain s g1 where c: "compute_reactivity a hist g = (s, g1)" by (cases "compute_reactivity a hist g")
  obtain sc as' g2 where r: "collect_loop hist (Suc i) as g1 = (sc, as', g2)"
    by (cases "collect_loop hist (Suc i) as g1") auto
  have "unit_tape g1" using compute_reactivity_unit [OF Cons.prems, of a hist] c by simp
  then have "unit_tape g2" using Cons.IH [of g1 "Suc i"] r by simp
  then show ?case using c r by simp
qed

lemma collect_loop_nonneg:
  "unit_tape g \<Longrightarrow> (a, s) \<in> set (fst (collect_loop hist i as g)) \<Longrightarrow> 0 \<le> s \<and> s \<le> 1"
proof (induction as arbitrary: i g)
  case Nil
  then show ?case by simp
next
  case (Cons b as)
  obtain s1 g1 where c: "compute_reactivity b hist g = (s1, g1)" by (cases "compute_reactivity b hist g")
  obtain sc as' g2 where r: "collect_loop hist (Suc i) as g1 = (sc, as', g2)"
    by (cases "collect_loop hist (Suc i) as g1") auto
  have u1: "unit_tape g1" using compute_reactivity_unit [OF Cons.prems(1), of b hist] c by simp
  have "0 \<le> g 0" using Cons.prems(1) by (simp add: unit_tape_def)
  then have s1: "0 \<le> s1 \<and> s1 \<le> 1"
    using compute_reactivity_nonneg [of g b hist] c
    by (auto simp: compute_reactivity_def uniform_def random_def split: if_splits)
  have "(a, s) = (i, s1) \<or> (a, s) \<in> set sc"
    using Cons.prems(2) c r by (simp split: if_splits)
  then show ?case
    using s1 Cons.IH [OF u1, of "Suc i"] r by auto
qed

lemma randbelow_less:
  assumes "unit_tape g" and "0 < n"
  shows "fst (randbelow n g) < n"
proof -
  have r: "0 \<le> g 0" "g 0 < 1" using assms(1) by (simp_all add: unit_tape_def)
  have "g 0 * real n < real n" using r assms(2) by simp
  then have "\<lfloor>g 0 * real n\<rfloor> < int n" by (simp add: floor_less_iff)
  moreover have "0 \<le> \<lfloor>g 0 * real n\<rfloor>" using r by simp
  ultimately have "nat \<lfloor>g 0 * real n\<rfloor> < n" by linarith
  then show ?thesis by (simp add: randbelow_def random_def)
qed

lemma randbelow_tape: "snd (randbelow n g) = (\<lambda>k. g (Suc k))"
  by (simp add: randbelow_def random_def)

lemma pool_remove:
  assumes "j < length pool"
  shows "add_mset (pool ! j) (mset (butlast (pool[j := last pool]))) = mset pool"
proof (cases "j = length pool - 1")
  case True
  have ne: "pool \<noteq> []" using assms by auto
  have "pool ! j = last pool" using True ne by (simp add: last_conv_nth)
  moreover have "butlast (pool[j := last pool]) = butlast pool"
    using True by (simp add: butlast_list_update)
  moreover have "add_mset (last pool) (mset (butlast pool)) = mset pool"
    using ne by (metis append_butlast_last_id mset.simps(2) mset_append add_mset_add_single mset.simps(1) union_mset_add_mset_right add.right_neutral)
  ultimately show ?thesis by simp
next
  case False
  have ne: "pool \<noteq> []" using assms by auto
  have jb: "j < length (butlast pool)" using assms False by simp
  have b: "butlast (pool[j := last pool]) = (butlast pool)[j := last pool]"
    using False by (simp add: butlast_list_update)
  have n: "butlast pool ! j = pool ! j" using jb by (simp add: nth_butlast)
  have "mset ((butlast pool)[j := last pool])
        = add_mset (last pool) (mset (butlast pool) - {#pool ! j#})"
    using jb n by (simp add: mset_update)
  moreover have "pool ! j \<in># mset (butlast pool)"
    using jb n by (metis nth_mem set_mset_mset)
  moreover have "add_mset (last pool) (mset (butlast pool)) = mset pool"
    using ne by (metis append_butlast_last_id mset.simps(2) mset_append add_mset_add_single mset.simps(1) union_mset_add_mset_right add.right_neutral)
  ultimately show ?thesis
    unfolding b by (metis add_mset_commute insert_DiffM)
qed

lemma sample_loop_mset:
  assumes "unit_tape g" and "k \<le> length pool"
  shows "mset (fst (sample_loop k pool g)) \<subseteq># mset pool
         \<and> length (fst (sample_loop k pool g)) = k"
  using assms
proof (induction k arbitrary: pool g)
  case 0
  then show ?case by simp
next
  case (Suc k)
  define j where "j = fst (randbelow (length pool) g)"
  define g1 where "g1 = snd (randbelow (length pool) g)"
  define pool' where "pool' = butlast (pool[j := last pool])"
  have rb: "randbelow (length pool) g = (j, g1)" by (simp add: j_def g1_def)
  have pos: "0 < length pool" using Suc.prems(2) by (cases pool) simp_all
  have jl: "j < length pool" unfolding j_def using Suc.prems(1) pos by (rule randbelow_less)
  have u1: "unit_tape g1" unfolding g1_def randbelow_tape using Suc.prems(1) by (rule unit_tape_tail)
  have len: "k \<le> length pool'" using Suc.prems(2) by (simp add: pool'_def)
  obtain rest g2 where r: "sample_loop k pool' g1 = (rest, g2)" by (cases "sample_loop k pool' g1")
  have ih: "mset rest \<subseteq># mset pool' \<and> length rest = k"
    using Suc.IH [OF u1 len] r by simp
  have e: "sample_loop (Suc k) pool g = (pool ! j # rest, g2)"
    using rb r by (simp add: pool'_def)
  have "add_mset (pool ! j) (mset rest) \<subseteq># add_mset (pool ! j) (mset pool')"
    using ih by simp
  then have "mset (pool ! j # rest) \<subseteq># mset pool"
    using pool_remove [OF jl] by (simp add: pool'_def)
  then show ?case using e ih by simp
qed

lemma bisect_cum_less: "ws \<noteq> [] \<Longrightarrow> bisect_cum ws acc x < length ws"
  by (induction ws acc x rule: bisect_cum.induct) auto


lemma random_choices1_ok:
  assumes "0 < sum_list weights" and "length weights = length population"
  shows "random_choices1 population weights g
           = (Inr (population ! bisect_cum weights 0 (g 0 * sum_list weights)), \<lambda>n. g (Suc n))
         \<and> bisect_cum weights 0 (g 0 * sum_list weights) < length population"
proof -
  have "weights \<noteq> []" using assms(1) by auto
  then have "bisect_cum weights 0 (g 0 * sum_list weights) < length population"
    using bisect_cum_less [of weights 0] assms(2) by simp
  then show ?thesis
    using assms(1) by (simp add: random_choices1_def Let_def random_def)
qed


lemma weighted_draws_step:
  fixes g :: rng
  assumes "remaining \<noteq> []" and "0 < sum_list (draw_weights remaining)"
  defines "c \<equiv> fst (remaining ! bisect_cum (draw_weights remaining) 0
                   (g 0 * sum_list (draw_weights remaining)))"
  shows "weighted_draws (Suc k) remaining g =
           (case weighted_draws k (filter (\<lambda>(a, s). a \<noteq> c) remaining) (\<lambda>n. g (Suc n)) of
              (Inl e, g2) \<Rightarrow> (Inl e, g2)
            | (Inr selected, g2) \<Rightarrow> (Inr (c # selected), g2))
         \<and> c \<in> fst ` set remaining"
proof -
  define i where "i = bisect_cum (draw_weights remaining) 0 (g 0 * sum_list (draw_weights remaining))"
  have l: "length (draw_weights remaining) = length (map fst remaining)"
    by (simp add: draw_weights_def)
  note r = random_choices1_ok [OF assms(2) l, of g, folded i_def]
  have il: "i < length remaining" using r by simp
  have ce: "map fst remaining ! i = c" using il by (simp add: c_def i_def)
  have rc: "random_choices1 (map fst remaining) (draw_weights remaining) g
            = (Inr c, \<lambda>n. g (Suc n))"
    using r ce by simp
  have m: "c \<in> fst ` set remaining"
    using il unfolding c_def i_def [symmetric] by (metis nth_mem image_eqI)
  have "weighted_draws (Suc k) remaining g =
           (case weighted_draws k (filter (\<lambda>(a, s). a \<noteq> c) remaining) (\<lambda>n. g (Suc n)) of
              (Inl e, g2) \<Rightarrow> (Inl e, g2)
            | (Inr selected, g2) \<Rightarrow> (Inr (c # selected), g2))"
    using assms(1) rc [unfolded draw_weights_def]
    by (simp add: Let_def)
  then show ?thesis using m by simp
qed

lemma weighted_draws_sound:
  "weighted_draws k remaining g = (Inr selected, g')
     \<Longrightarrow> set selected \<subseteq> fst ` set remaining \<and> distinct selected \<and> length selected \<le> k"
proof (induction k arbitrary: remaining g selected g')
  case 0
  then show ?case by simp
next
  case (Suc k)
  show ?case
  proof (cases "remaining = []")
    case True
    then show ?thesis using Suc.prems by simp
  next
    case False
    define ws where "ws = draw_weights remaining"
    show ?thesis
    proof (cases "0 < sum_list ws")
      case pos: True
      define c where "c = fst (remaining ! bisect_cum ws 0 (g 0 * sum_list ws))"
      define rest where "rest = filter (\<lambda>(a, s). a \<noteq> c) remaining"
      note st = weighted_draws_step [OF False pos [unfolded ws_def], of k g,
          folded ws_def, folded c_def, folded rest_def]
      obtain r g2 where w: "weighted_draws k rest (\<lambda>n. g (Suc n)) = (r, g2)"
        by (cases "weighted_draws k rest (\<lambda>n. g (Suc n))")
      from st w Suc.prems obtain sel where
        r: "r = Inr sel" and s: "selected = c # sel"
        by (cases r) auto
      have ih: "set sel \<subseteq> fst ` set rest \<and> distinct sel \<and> length sel \<le> k"
        using Suc.IH [of rest "\<lambda>n. g (Suc n)" sel g2] w r by simp
      have "c \<notin> fst ` set rest" by (auto simp: rest_def)
      then have "c \<notin> set sel" using ih by blast
      moreover have "fst ` set rest \<subseteq> fst ` set remaining" by (auto simp: rest_def)
      ultimately show ?thesis using ih s st by auto
    next
      case False
      then have "random_choices1 (map fst remaining) ws g = (Inl ValueError, g)"
        by (simp add: random_choices1_def Let_def)
      then have "fst (weighted_draws (Suc k) remaining g) = Inl ValueError"
        using \<open>remaining \<noteq> []\<close> by (simp add: ws_def draw_weights_def Let_def)
      then show ?thesis using Suc.prems by simp
    qed
  qed
qed








lemma py_take_subset: "set (py_take i xs) \<subseteq> set xs"
  by (auto simp: py_take_def dest: in_set_takeD)

lemma random_sample_subset:
  assumes "unit_tape g" and "random_sample population k g = (Inr selected, g')"
  shows "set selected \<subseteq> set population"
proof -
  have b: "0 \<le> k \<and> k \<le> int (length population)"
    using assms(2) by (auto simp: random_sample_def split: if_splits)
  then have le: "nat k \<le> length population" by linarith
  have "selected = fst (sample_loop (nat k) population g)"
    using assms(2) b by (auto simp: random_sample_def split_beta)
  then show ?thesis
    using sample_loop_mset [OF assms(1) le] set_mset_mono [of "mset selected" "mset population"]
    by simp
qed

lemma select_speakers_subset:
  assumes "unit_tape g" and "select_speakers orc intent_scores g = (Inr selected, g')"
  shows "set selected \<subseteq> fst ` set intent_scores"
proof (cases "intent_scores = []")
  case True
  then show ?thesis using assms(2) by (simp add: select_speakers_def)
next
  case False
  define sorted_scores where "sorted_scores = sorted_desc snd intent_scores"
  define n where "n = int (length sorted_scores)"
  define num where "num = min (speakers_per_round orc) n"
  define top where "top = py_take (min (num * 2) n) sorted_scores"
  have ss: "set sorted_scores = set intent_scores" by (simp add: sorted_scores_def sorted_desc_set)
  have ts: "set top \<subseteq> set intent_scores" using py_take_subset [of _ sorted_scores] ss by (simp add: top_def)
  have le: "num \<le> n" by (simp add: num_def)
  have e: "select_speakers orc intent_scores g =
             (if sum_list (map snd top) = 0 then random_sample (map fst top) num g
              else weighted_draws (nat num) top g)"
    using False le
    by (simp add: select_speakers_def Let_def sorted_scores_def [symmetric] n_def [symmetric]
        num_def [symmetric] top_def [symmetric])
  show ?thesis
  proof (cases "sum_list (map snd top) = 0")
    case True
    then have "random_sample (map fst top) num g = (Inr selected, g')" using e assms(2) by simp
    then have "set selected \<subseteq> set (map fst top)" using assms(1) random_sample_subset by blast
    then show ?thesis using ts by auto
  next
    case False
    then have "weighted_draws (nat num) top g = (Inr selected, g')" using e assms(2) by simp
    then have "set selected \<subseteq> fst ` set top" using weighted_draws_sound by blast
    then show ?thesis using ts by auto
  qed
qed

lemma collect_intent_to_speak_parts:
  assumes "collect_intent_to_speak orc g = (intent_scores, orc', g')"
  shows "agents orc' = map reduce_cooldown (agents orc)"
    and "map fst intent_scores = filter (\<lambda>j. cooldown (agents orc ! j) = 0) [0..<length (agents orc)]"
    and "orc' = orc\<lparr>agents := map reduce_cooldown (agents orc)\<rparr>"
    and "unit_tape g \<Longrightarrow> unit_tape g'"
    and "unit_tape g \<Longrightarrow> \<forall>p \<in> set intent_scores. 0 \<le> snd p \<and> snd p \<le> 1"
proof -
  obtain sc as' g2 where c: "collect_loop (chat_history orc) 0 (agents orc) g = (sc, as', g2)"
    by (cases "collect_loop (chat_history orc) 0 (agents orc) g") auto
  have e: "intent_scores = sc" "orc' = orc\<lparr>agents := as'\<rparr>" "g' = g2"
    using assms c by (simp_all add: collect_intent_to_speak_def)
  have a: "as' = map reduce_cooldown (agents orc)"
    using collect_loop_agents [of "chat_history orc" 0 "agents orc" g] c by simp
  show "agents orc' = map reduce_cooldown (agents orc)" using e a by simp
  show "orc' = orc\<lparr>agents := map reduce_cooldown (agents orc)\<rparr>" using e a by simp
  show "map fst intent_scores = filter (\<lambda>j. cooldown (agents orc ! j) = 0) [0..<length (agents orc)]"
    using collect_loop_scores [of "chat_history orc" 0 "agents orc" g] c e by simp
  show "unit_tape g'" if "unit_tape g"
    using collect_loop_unit [OF that, of "chat_history orc" 0 "agents orc"] c e by simp
  show "\<forall>p \<in> set intent_scores. 0 \<le> snd p \<and> snd p \<le> 1" if "unit_tape g"
    using collect_loop_nonneg [OF that, of _ _ "chat_history orc" 0 "agents orc"] c e by auto
qed

text \<open>
  C6. In the scoring phase, \<^verbatim>\<open>collect_intent_to_speak\<close>, an agent whose cooldown is above 0
  does not enter the list of scores, and its cooldown is reduced by exactly 1 (nothing else
  of the agent changes); the list of scores holds exactly the agents whose cooldown is 0.
  Whatever \<^verbatim>\<open>select_speakers\<close> returns for that list, the agent is not in it.
\<close>

theorem cooldown_excluded_from_selection:
  assumes "collect_intent_to_speak orc g = (intent_scores, orc', g')"
    and "i < length (agents orc)" and "cooldown (agents orc ! i) > 0"
    and "unit_tape g"
  shows "i \<notin> fst ` set intent_scores
       \<and> agents orc' ! i = (agents orc ! i)\<lparr>cooldown := cooldown (agents orc ! i) - 1\<rparr>
       \<and> cooldown (agents orc' ! i) = cooldown (agents orc ! i) - 1
       \<and> (\<forall>selected g''. select_speakers orc' intent_scores g' = (Inr selected, g'')
             \<longrightarrow> i \<notin> set selected)
       \<and> fst ` set intent_scores = {j. j < length (agents orc) \<and> cooldown (agents orc ! j) = 0}"
proof -
  note p = collect_intent_to_speak_parts [OF assms(1)]
  have s: "fst ` set intent_scores = {j. j < length (agents orc) \<and> cooldown (agents orc ! j) = 0}"
  proof -
    have "fst ` set intent_scores = set (map fst intent_scores)" by simp
    also have "\<dots> = {j. j < length (agents orc) \<and> cooldown (agents orc ! j) = 0}"
      unfolding p(2) by auto
    finally show ?thesis .
  qed
  then have n: "i \<notin> fst ` set intent_scores" using assms(3) by simp
  have a: "agents orc' ! i = (agents orc ! i)\<lparr>cooldown := cooldown (agents orc ! i) - 1\<rparr>"
    using p(1) assms(2,3) by (simp add: reduce_cooldown_def)
  have u: "unit_tape g'" using p(4) assms(4) by simp
  have "i \<notin> set selected" if "select_speakers orc' intent_scores g' = (Inr selected, g'')"
    for selected g''
    using select_speakers_subset [OF u that] n by blast
  then show ?thesis using s n a by simp
qed

theorem cooldown_excluded_from_selection_witness:
  "unit_tape ex_tape \<and> (0::nat) < length (agents ex_orc) \<and> cooldown (agents ex_orc ! 0) > 0
   \<and> 0 \<notin> fst ` set (fst (collect_intent_to_speak ex_orc ex_tape))
   \<and> cooldown (agents (fst (snd (collect_intent_to_speak ex_orc ex_tape))) ! 0) = 1
   \<and> map fst (fst (collect_intent_to_speak ex_orc ex_tape)) = [1]"
proof -
  define C where "C = collect_intent_to_speak ex_orc ex_tape"
  have e: "collect_intent_to_speak ex_orc ex_tape = (fst C, fst (snd C), snd (snd C))"
    by (simp add: C_def)
  have h1: "unit_tape ex_tape" by (simp add: unit_tape_def ex_tape_def)
  have h2: "(0::nat) < length (agents ex_orc)" by (simp add: ex_orc_def)
  have h3: "cooldown (agents ex_orc ! 0) > 0" by (simp add: ex_orc_def)
  have c: "cooldown (agents ex_orc ! 0) = 2" by (simp add: ex_orc_def)
  have v: "map fst (fst (collect_intent_to_speak ex_orc ex_tape)) = [1]" by code_simp
  from cooldown_excluded_from_selection [OF e h2 h3 h1] h1 h2 h3 c v
  show ?thesis by (simp add: C_def)
qed



section \<open>Properties of a round\<close>

lemma generate_loop_props:
  "map fst (fst (generate_loop ags topic speakers l)) = speakers
   \<and> map snd (fst (generate_loop ags topic speakers l))
       = map (\<lambda>j. agent_response (ags ! (speakers ! j)) topic (l j)) [0..<length speakers]
   \<and> snd (generate_loop ags topic speakers l) = (\<lambda>n. l (n + length speakers))"
proof (induction speakers arbitrary: l)
  case Nil
  then show ?case by simp
next
  case (Cons i speakers)
  define l1 where "l1 = (\<lambda>n. l (Suc n))"
  obtain rs l2 where r: "generate_loop ags topic speakers l1 = (rs, l2)"
    by (cases "generate_loop ags topic speakers l1")
  note ih = Cons.IH [of l1, unfolded r, simplified]
  have e: "generate_loop ags topic (i # speakers) l
           = ((i, agent_response (ags ! i) topic (l 0)) # rs, l2)"
    using r by (simp add: generate_reply_def l1_def)
  have up: "[0..<length (i # speakers)] = 0 # map Suc [0..<length speakers]"
    by (simp add: upt_conv_Cons map_Suc_upt del: upt_Suc)
  show ?case
    unfolding e up using ih by (simp add: l1_def comp_def del: upt_Suc)
qed

lemma record_response_length: "length (agents (record_response orc ar)) = length (agents orc)"
  by (simp add: record_response_def Let_def)

lemma foldl_record_response_length:
  "length (agents (foldl record_response orc rs)) = length (agents orc)"
  by (induction rs arbitrary: orc) (simp_all add: record_response_length)

lemma observe_response_length: "length (observe_response ags ar) = length ags"
  by (simp add: observe_response_def)

lemma foldl_observe_response_length: "length (foldl observe_response ags rs) = length ags"
  by (induction rs arbitrary: ags) (simp_all add: observe_response_length)

lemma update_memory_and_reflection_length:
  "length (agents (update_memory_and_reflection orc rs)) = length (agents orc)"
  by (simp add: update_memory_and_reflection_def Let_def foldl_observe_response_length
      foldl_record_response_length)











lemma should_continue_debate_cases:
  assumes "should_continue_debate orc g = (cont, orc', g')"
  shows "(round_count orc < max_rounds orc \<and> debate_active orc
            \<longrightarrow> orc' = orc\<lparr>agents := map reduce_cooldown (agents orc)\<rparr>)
       \<and> (\<not> (round_count orc < max_rounds orc \<and> debate_active orc)
            \<longrightarrow> orc' = orc \<and> g' = g \<and> \<not> cont)"
proof -
  obtain sc orc1 g1 where c: "collect_intent_to_speak orc g = (sc, orc1, g1)"
    by (cases "collect_intent_to_speak orc g") auto
  note p = collect_intent_to_speak_parts(3) [OF c]
  show ?thesis
    using assms c p by (auto simp: should_continue_debate_def split: if_splits)
qed

lemma record_response_cooldown:
  assumes "j < length (agents orc)"
  shows "cooldown (agents (record_response orc ar) ! j)
           = (if j = fst ar then 2 else cooldown (agents orc ! j))"
  using assms by (simp add: record_response_def Let_def set_cooldown_def nth_list_update)

lemma foldl_record_response_cooldown:
  assumes "j < length (agents orc)"
  shows "cooldown (agents (foldl record_response orc rs) ! j)
           = (if j \<in> fst ` set rs then 2 else cooldown (agents orc ! j))"
  using assms
proof (induction rs rule: rev_induct)
  case Nil
  then show ?case by simp
next
  case (snoc ar rs)
  have l: "j < length (agents (foldl record_response orc rs))"
    using snoc.prems by (simp add: foldl_record_response_length)
  show ?case
    using record_response_cooldown [OF l, of ar] snoc.IH [OF snoc.prems] by auto
qed

lemma update_memory_cooldown: "cooldown (update_memory a msg imp sp) = cooldown a"
  by (simp add: update_memory_def clean_decayed_memories_def Let_def)

lemma observe_response_cooldown:
  assumes "j < length ags"
  shows "cooldown (observe_response ags ar ! j) = cooldown (ags ! j)"
  using assms by (simp add: observe_response_def nth_enumerate_eq update_memory_cooldown)

lemma foldl_observe_response_cooldown:
  assumes "j < length ags"
  shows "cooldown (foldl observe_response ags rs ! j) = cooldown (ags ! j)"
  using assms
proof (induction rs rule: rev_induct)
  case Nil
  then show ?case by simp
next
  case (snoc ar rs)
  have l: "j < length (foldl observe_response ags rs)"
    using snoc.prems by (simp add: foldl_observe_response_length)
  show ?case
    using observe_response_cooldown [OF l, of ar] snoc.IH [OF snoc.prems] by simp
qed

lemma update_memory_and_reflection_cooldown:
  assumes "j < length (agents orc)"
  shows "cooldown (agents (update_memory_and_reflection orc rs) ! j)
           = (if j \<in> fst ` set rs then 2 else cooldown (agents orc ! j))"
proof -
  have l: "j < length (agents (foldl record_response orc rs))"
    using assms by (simp add: foldl_record_response_length)
  show ?thesis
    using foldl_observe_response_cooldown [OF l, of rs] foldl_record_response_cooldown [OF assms, of rs]
    by (simp add: update_memory_and_reflection_def Let_def)
qed

lemma record_response_frame:
  "round_count (record_response orc ar) = round_count orc
   \<and> max_rounds (record_response orc ar) = max_rounds orc
   \<and> debate_active (record_response orc ar) = debate_active orc"
  by (simp add: record_response_def Let_def)

lemma foldl_record_response_frame:
  "round_count (foldl record_response orc rs) = round_count orc
   \<and> max_rounds (foldl record_response orc rs) = max_rounds orc
   \<and> debate_active (foldl record_response orc rs) = debate_active orc"
  by (induction rs arbitrary: orc) (simp_all add: record_response_frame)

lemma update_memory_and_reflection_frame:
  "round_count (update_memory_and_reflection orc rs) = round_count orc
   \<and> max_rounds (update_memory_and_reflection orc rs) = max_rounds orc
   \<and> debate_active (update_memory_and_reflection orc rs) = debate_active orc"
  using foldl_record_response_frame [of orc rs]
  by (simp add: update_memory_and_reflection_def Let_def)

lemma moderator_step_frame:
  assumes "moderator_step orc g = (Inr orc', g')"
  shows "agents orc' = agents orc \<and> round_count orc' = round_count orc
         \<and> max_rounds orc' = max_rounds orc \<and> debate_active orc' = debate_active orc"
  using assms
  by (auto simp: moderator_step_def split_beta split: if_splits prod.splits sum.splits)

lemma cooldown_reduce_cooldown: "cooldown (reduce_cooldown a) = reduced (cooldown a)"
  by (simp add: reduce_cooldown_def reduced_def)

lemma ended_not_round: "ended orc g l \<noteq> (Inr (Round rd), w)"
  by (simp add: ended_def split_beta)

lemma speak_round:
  assumes "speak orc scores selected g l = (Inr (Round rd), orc', g', l')"
    and "j < length (agents orc)"
  shows "fst ` set (rd_responses rd) = set selected"
    and "cooldown (agents orc' ! j) =
           (let c = (if j \<in> set selected then 2 else cooldown (agents orc ! j))
            in if round_count orc < max_rounds orc \<and> debate_active orc then reduced c else c)"
proof -
  obtain rs l1 where gr: "generate_agent_responses orc selected l = (rs, l1)"
    by (cases "generate_agent_responses orc selected l")
  have ms: "map fst rs = selected"
    using generate_loop_props [of "agents orc" "current_topic orc" selected l] gr
    by (simp add: generate_agent_responses_def)
  then have fs: "fst ` set rs = set selected" by (metis set_map)
  define orc1 where "orc1 = update_memory_and_reflection orc rs"
  obtain res g1 where m: "moderator_step orc1 g = (res, g1)" by (cases "moderator_step orc1 g")
  obtain orc2 where r: "res = Inr orc2"
    using assms(1) gr m by (cases res) (simp_all add: speak_def orc1_def [symmetric])
  obtain cont orc3 g2 where sc: "should_continue_debate orc2 g1 = (cont, orc3, g2)"
    by (cases "should_continue_debate orc2 g1") auto
  have e: "rd_responses rd = rs" "orc' = orc3"
    using assms(1) gr m r sc by (auto simp: speak_def orc1_def [symmetric])
  show "fst ` set (rd_responses rd) = set selected" using e fs by simp
  note mf = moderator_step_frame [OF m [unfolded r]]
  note uf = update_memory_and_reflection_frame [of orc rs, folded orc1_def]
  have l2: "j < length (agents orc2)"
    using assms(2) mf update_memory_and_reflection_length [of orc rs] by (simp add: orc1_def)
  have c2: "cooldown (agents orc2 ! j) = (if j \<in> set selected then 2 else cooldown (agents orc ! j))"
    using update_memory_and_reflection_cooldown [OF assms(2), of rs] mf fs by (simp add: orc1_def)
  have act: "(round_count orc2 < max_rounds orc2 \<and> debate_active orc2)
             = (round_count orc < max_rounds orc \<and> debate_active orc)"
    using mf uf by simp
  note cs = should_continue_debate_cases [OF sc]
  define b where "b \<longleftrightarrow> round_count orc < max_rounds orc \<and> debate_active orc"
  have act': "(round_count orc2 < max_rounds orc2 \<and> debate_active orc2) = b"
    using act by (simp add: b_def)
  have "cooldown (agents orc' ! j) =
           (let c = (if j \<in> set selected then 2 else cooldown (agents orc ! j))
            in if b then reduced c else c)"
  proof (cases b)
    case True
    then have "orc3 = orc2\<lparr>agents := map reduce_cooldown (agents orc2)\<rparr>"
      using cs act' by simp
    then have "cooldown (agents orc3 ! j) = reduced (cooldown (agents orc2 ! j))"
      using l2 by (simp add: cooldown_reduce_cooldown)
    then show ?thesis using True c2 e by (simp add: Let_def)
  next
    case False
    then have "orc3 = orc2" using cs act' by simp
    then show ?thesis using False c2 e by (simp add: Let_def)
  qed
  then show "cooldown (agents orc' ! j) =
           (let c = (if j \<in> set selected then 2 else cooldown (agents orc ! j))
            in if round_count orc < max_rounds orc \<and> debate_active orc then reduced c else c)"
    by (simp only: b_def)
qed

lemma run_debate_round_cooldown:
  assumes "run_debate_round orc g l = (Inr (Round rd), orc', g', l')"
    and "j < length (agents orc)"
  shows "round_count orc < max_rounds orc \<and> debate_active orc
       \<and> round_count orc' = round_count orc + 1 \<and> max_rounds orc' = max_rounds orc
       \<and> debate_active orc' \<and> length (agents orc') = length (agents orc)
       \<and> cooldown (agents orc' ! j) =
           (let c = (if j \<in> fst ` set (rd_responses rd) then 2
                     else reduced (reduced (cooldown (agents orc ! j))))
            in if round_count orc + 1 < max_rounds orc then reduced c else c)"
proof -
  obtain cont orc1 g1 where sc: "should_continue_debate orc g = (cont, orc1, g1)"
    by (cases "should_continue_debate orc g") auto
  have ct: cont
  proof (rule ccontr)
    assume "\<not> cont"
    then have "run_debate_round orc g l = ended orc1 g1 l"
      using sc by (simp add: run_debate_round_def)
    then show False using assms(1) by (metis ended_not_round)
  qed
  note cs = should_continue_debate_cases [OF sc]
  have act: "round_count orc < max_rounds orc \<and> debate_active orc" using cs ct by blast
  then have o1: "orc1 = orc\<lparr>agents := map reduce_cooldown (agents orc)\<rparr>" using cs by blast
  define orc2 where "orc2 = orc1\<lparr>round_count := round_count orc1 + 1\<rparr>"
  obtain scores orc3 g2 where c: "collect_intent_to_speak orc2 g1 = (scores, orc3, g2)"
    by (cases "collect_intent_to_speak orc2 g1") auto
  note p = collect_intent_to_speak_parts(3) [OF c]
  have o3: "orc3 = orc\<lparr>agents := map reduce_cooldown (map reduce_cooldown (agents orc)),
                       round_count := round_count orc + 1\<rparr>"
    using p o1 by (simp add: orc2_def)
  obtain res g3 where sel: "select_speakers orc3 scores g2 = (res, g3)"
    by (cases "select_speakers orc3 scores g2")
  have e0: "run_debate_round orc g l =
      (if scores = [] then ended orc3 g2 l
       else case res of Inl e \<Rightarrow> (Inl e, orc3, g3, l)
            | Inr selected \<Rightarrow> if selected = [] then ended orc3 g3 l
                              else speak orc3 (sorted_desc snd scores) selected g3 l)"
    using sc ct c sel by (simp add: run_debate_round_def Let_def orc2_def [symmetric])
  have ne: "scores \<noteq> []"
  proof
    assume "scores = []"
    then have "run_debate_round orc g l = ended orc3 g2 l" using e0 by simp
    then show False using assms(1) by (metis ended_not_round)
  qed
  obtain selected where r: "res = Inr selected"
    using e0 ne assms(1) by (cases res) simp_all
  have ns: "selected \<noteq> []"
  proof
    assume "selected = []"
    then have "run_debate_round orc g l = ended orc3 g3 l" using e0 ne r by simp
    then show False using assms(1) by (metis ended_not_round)
  qed
  have sp: "speak orc3 (sorted_desc snd scores) selected g3 l = (Inr (Round rd), orc', g', l')"
    using e0 ne r ns assms(1) by simp
  have j3: "j < length (agents orc3)" using assms(2) o3 by simp
  note s = speak_round [OF sp j3]
  have c3: "cooldown (agents orc3 ! j) = reduced (reduced (cooldown (agents orc ! j)))"
    using assms(2) o3 by (simp add: cooldown_reduce_cooldown)
  have a3: "(round_count orc3 < max_rounds orc3 \<and> debate_active orc3)
            = (round_count orc + 1 < max_rounds orc)"
    using o3 act by simp
  have cd: "cooldown (agents orc' ! j) =
           (let c = (if j \<in> fst ` set (rd_responses rd) then 2
                     else reduced (reduced (cooldown (agents orc ! j))))
            in if round_count orc + 1 < max_rounds orc then reduced c else c)"
    using s(2) unfolding a3 c3 s(1) [symmetric] .
  have fr: "round_count orc' = round_count orc + 1 \<and> max_rounds orc' = max_rounds orc
       \<and> debate_active orc' \<and> length (agents orc') = length (agents orc)"
  proof -
    obtain rs l1 where gr: "generate_agent_responses orc3 selected l = (rs, l1)"
      by (cases "generate_agent_responses orc3 selected l")
    define orc4 where "orc4 = update_memory_and_reflection orc3 rs"
    obtain mres g4 where m: "moderator_step orc4 g3 = (mres, g4)" by (cases "moderator_step orc4 g3")
    obtain orc5 where mr: "mres = Inr orc5"
      using sp gr m by (cases mres) (simp_all add: speak_def orc4_def [symmetric])
    obtain cont2 orc6 g5 where sc2: "should_continue_debate orc5 g4 = (cont2, orc6, g5)"
      by (cases "should_continue_debate orc5 g4") auto
    have e: "orc' = orc6" using sp gr m mr sc2 by (auto simp: speak_def orc4_def [symmetric])
    note mf = moderator_step_frame [OF m [unfolded mr]]
    note uf = update_memory_and_reflection_frame [of orc3 rs, folded orc4_def]
    note ul = update_memory_and_reflection_length [of orc3 rs, folded orc4_def]
    note cs2 = should_continue_debate_cases [OF sc2]
    have "orc6 = orc5 \<or> orc6 = orc5\<lparr>agents := map reduce_cooldown (agents orc5)\<rparr>"
      using cs2 by blast
    then show ?thesis
      using e mf uf ul o3 act by auto
  qed
  show ?thesis using act cd fr by simp
qed

text \<open>
  C9. The continuation check changes the state: when the round limit is not reached and the
  debate is active, \<^verbatim>\<open>should_continue_debate\<close> runs \<^verbatim>\<open>collect_intent_to_speak\<close>, which reduces
  the cooldown of every agent on cooldown. A round that produces responses evaluates the
  check at its start and for the \<^verbatim>\<open>continue\<close> flag of its result, and the driver evaluates it
  once more before the next round. So a speaker, whose cooldown is set to 2, has cooldown 1
  when the round returns and cooldown 0 after the driver's check, before the next round
  starts; an agent that does not speak has its cooldown reduced three times in the round
  (two checks and the scoring phase) and a fourth time by the driver.
\<close>

theorem continuation_check_reduces_cooldowns:
  assumes "run_debate_round orc g l = (Inr (Round rd), orc1, g1, l1)"
    and "round_count orc + 1 < max_rounds orc"
    and "should_continue_debate orc1 g1 = (cont, orc2, g2)"
    and "i < length (agents orc)"
  shows "(round_count orc0 < max_rounds orc0 \<and> debate_active orc0 \<longrightarrow>
            fst (snd (should_continue_debate orc0 g0))
              = orc0\<lparr>agents := map reduce_cooldown (agents orc0)\<rparr>)
       \<and> cooldown (reduce_cooldown a) = (if cooldown a > 0 then cooldown a - 1 else cooldown a)
       \<and> (i \<in> fst ` set (rd_responses rd) \<longrightarrow>
            cooldown (agents orc1 ! i) = 1 \<and> cooldown (agents orc2 ! i) = 0)
       \<and> (i \<notin> fst ` set (rd_responses rd) \<longrightarrow>
            cooldown (agents orc1 ! i) = reduced (reduced (reduced (cooldown (agents orc ! i))))
            \<and> cooldown (agents orc2 ! i)
                = reduced (reduced (reduced (reduced (cooldown (agents orc ! i))))))
       \<and> (i \<notin> fst ` set (rd_responses rd) \<and> 4 \<le> cooldown (agents orc ! i) \<longrightarrow>
            cooldown (agents orc1 ! i) = cooldown (agents orc ! i) - 3
            \<and> cooldown (agents orc2 ! i) = cooldown (agents orc ! i) - 4)"
proof -
  note r = run_debate_round_cooldown [OF assms(1,4)]
  have a1: "round_count orc1 < max_rounds orc1 \<and> debate_active orc1"
    using r assms(2) by simp
  have o2: "orc2 = orc1\<lparr>agents := map reduce_cooldown (agents orc1)\<rparr>"
    using should_continue_debate_cases [OF assms(3)] a1 by blast
  have i1: "i < length (agents orc1)" using r assms(4) by simp
  have c2: "cooldown (agents orc2 ! i) = reduced (cooldown (agents orc1 ! i))"
    using o2 i1 by (simp add: cooldown_reduce_cooldown)
  have c1: "cooldown (agents orc1 ! i) =
              reduced (if i \<in> fst ` set (rd_responses rd) then 2
                       else reduced (reduced (cooldown (agents orc ! i))))"
    using r assms(2) by (simp add: Let_def)
  have g1: "round_count orc0 < max_rounds orc0 \<and> debate_active orc0 \<longrightarrow>
            fst (snd (should_continue_debate orc0 g0))
              = orc0\<lparr>agents := map reduce_cooldown (agents orc0)\<rparr>"
    using should_continue_debate_cases [of orc0 g0 "fst (should_continue_debate orc0 g0)"
        "fst (snd (should_continue_debate orc0 g0))" "snd (snd (should_continue_debate orc0 g0))"]
    by simp
  have g2: "cooldown (reduce_cooldown a) = (if cooldown a > 0 then cooldown a - 1 else cooldown a)"
    by (simp add: reduce_cooldown_def)
  have s: "i \<in> fst ` set (rd_responses rd) \<longrightarrow>
            cooldown (agents orc1 ! i) = 1 \<and> cooldown (agents orc2 ! i) = 0"
    using c1 c2 by (simp add: reduced_def)
  have n: "i \<notin> fst ` set (rd_responses rd) \<longrightarrow>
            cooldown (agents orc1 ! i) = reduced (reduced (reduced (cooldown (agents orc ! i))))
            \<and> cooldown (agents orc2 ! i)
                = reduced (reduced (reduced (reduced (cooldown (agents orc ! i)))))"
    using c1 c2 by simp
  have n4: "i \<notin> fst ` set (rd_responses rd) \<and> 4 \<le> cooldown (agents orc ! i) \<longrightarrow>
            cooldown (agents orc1 ! i) = cooldown (agents orc ! i) - 3
            \<and> cooldown (agents orc2 ! i) = cooldown (agents orc ! i) - 4"
    using n by (simp add: reduced_def)
  show ?thesis using g1 g2 s n n4 by blast
qed

lemma ex_panel_round: "fst (run_debate_round ex_panel ex_tape ex_llm) = Inr (Round ex_rd)"
  by code_simp

theorem continuation_check_reduces_cooldowns_witness:
  "fst (run_debate_round ex_panel ex_tape ex_llm) = Inr (Round ex_rd)
   \<and> round_count ex_panel + 1 < max_rounds ex_panel
   \<and> (1::nat) < length (agents ex_panel)
   \<and> 1 \<in> fst ` set (rd_responses ex_rd)
   \<and> cooldown (agents (fst (snd (run_debate_round ex_panel ex_tape ex_llm))) ! 1) = 1
   \<and> cooldown (agents (fst (snd (should_continue_debate
         (fst (snd (run_debate_round ex_panel ex_tape ex_llm)))
         (fst (snd (snd (run_debate_round ex_panel ex_tape ex_llm))))))) ! 1) = 0"
proof -
  define R where "R = run_debate_round ex_panel ex_tape ex_llm"
  define S where "S = should_continue_debate (fst (snd R)) (fst (snd (snd R)))"
  have h1: "run_debate_round ex_panel ex_tape ex_llm
            = (Inr (Round ex_rd), fst (snd R), fst (snd (snd R)), snd (snd (snd R)))"
    using ex_panel_round by (simp add: R_def prod_eq_iff)
  have h2: "round_count ex_panel + 1 < max_rounds ex_panel"
    by (simp add: ex_panel_def new_orchestrator_def)
  have h3: "should_continue_debate (fst (snd R)) (fst (snd (snd R)))
            = (fst S, fst (snd S), snd (snd S))"
    by (simp add: S_def)
  have h4: "(1::nat) < length (agents ex_panel)" by (simp add: ex_panel_def)
  have m: "1 \<in> fst ` set (rd_responses ex_rd)" by (simp add: ex_rd_def)
  from continuation_check_reduces_cooldowns [OF h1 h2 h3 h4] m h2 h4 ex_panel_round
  show ?thesis by (simp add: R_def S_def)
qed

subsection \<open>The memory in a round\<close>

lemma update_memory_entries:
  assumes "m \<in> set (memory (update_memory a msg imp sp))"
  shows "m \<in> set (memory a) \<or> (decay_rounds m = 0 \<and> mem_content m = msg)"
proof -
  from assms update_memory_set [of a msg imp sp]
  have "m \<in> set (filter (\<lambda>m. importance m > 0.2) (memory a @ [new_entry a msg imp sp]))"
    by blast
  then have "m \<in> set (memory a @ [new_entry a msg imp sp])"
    by (simp only: set_filter mem_Collect_eq)
  then have "m \<in> set (memory a) \<or> m = new_entry a msg imp sp"
    by auto
  then show ?thesis by (auto simp: new_entry_def)
qed

lemma observe_response_entries:
  assumes "j < length ags" and "m \<in> set (memory (observe_response ags ar ! j))"
  shows "m \<in> set (memory (ags ! j)) \<or> (decay_rounds m = 0 \<and> mem_content m = snd ar)"
  using assms update_memory_entries [of m "ags ! j" "snd ar"]
  by (auto simp: observe_response_def nth_enumerate_eq split: if_splits)

lemma foldl_observe_response_entries:
  assumes "j < length ags" and "m \<in> set (memory (foldl observe_response ags rs ! j))"
  shows "m \<in> set (memory (ags ! j)) \<or> (decay_rounds m = 0 \<and> mem_content m \<in> snd ` set rs)"
  using assms
proof (induction rs arbitrary: m rule: rev_induct)
  case Nil
  then show ?case by simp
next
  case (snoc ar rs)
  have l: "j < length (foldl observe_response ags rs)"
    using snoc.prems(1) by (simp add: foldl_observe_response_length)
  have "m \<in> set (memory (observe_response (foldl observe_response ags rs) ar ! j))"
    using snoc.prems(2) by simp
  then have "m \<in> set (memory (foldl observe_response ags rs ! j))
             \<or> (decay_rounds m = 0 \<and> mem_content m = snd ar)"
    using observe_response_entries [OF l] by blast
  then show ?case using snoc.IH [OF snoc.prems(1)] by auto
qed

lemma record_response_memory:
  assumes "j < length (agents orc)"
  shows "memory (agents (record_response orc ar) ! j) = memory (agents orc ! j)"
  using assms
  by (cases "j = fst ar") (simp_all add: record_response_def Let_def set_cooldown_def)

lemma foldl_record_response_memory:
  assumes "j < length (agents orc)"
  shows "memory (agents (foldl record_response orc rs) ! j) = memory (agents orc ! j)"
  using assms
proof (induction rs rule: rev_induct)
  case Nil
  then show ?case by simp
next
  case (snoc ar rs)
  have l: "j < length (agents (foldl record_response orc rs))"
    using snoc.prems by (simp add: foldl_record_response_length)
  show ?case
    using record_response_memory [OF l, of ar] snoc.IH [OF snoc.prems] by simp
qed

lemma update_memory_and_reflection_entries:
  assumes "j < length (agents orc)"
    and "m \<in> set (memory (agents (update_memory_and_reflection orc rs) ! j))"
  shows "m \<in> set (memory (agents orc ! j))
         \<or> (decay_rounds m = 0 \<and> mem_content m \<in> snd ` set rs)"
proof -
  have l: "j < length (agents (foldl record_response orc rs))"
    using assms(1) by (simp add: foldl_record_response_length)
  have "m \<in> set (memory (foldl observe_response (agents (foldl record_response orc rs)) rs ! j))"
    using assms(2) by (simp add: update_memory_and_reflection_def Let_def)
  then show ?thesis
    using foldl_observe_response_entries [OF l] foldl_record_response_memory [OF assms(1), of rs]
    by auto
qed

lemma memory_reduce_cooldown: "memory (reduce_cooldown a) = memory a"
  by (simp add: reduce_cooldown_def)

lemma should_continue_debate_memory:
  assumes "should_continue_debate orc g = (cont, orc', g')" and "j < length (agents orc)"
  shows "memory (agents orc' ! j) = memory (agents orc ! j)"
proof -
  have "orc' = orc \<or> orc' = orc\<lparr>agents := map reduce_cooldown (agents orc)\<rparr>"
    using should_continue_debate_cases [OF assms(1)] by blast
  then show ?thesis using assms(2) by (auto simp: memory_reduce_cooldown)
qed

lemma speak_entries:
  assumes "speak orc scores selected g l = (Inr (Round rd), orc', g', l')"
    and "j < length (agents orc)" and "m \<in> set (memory (agents orc' ! j))"
  shows "m \<in> set (memory (agents orc ! j))
         \<or> (decay_rounds m = 0 \<and> mem_content m \<in> snd ` set (rd_responses rd))"
proof -
  obtain rs l1 where gr: "generate_agent_responses orc selected l = (rs, l1)"
    by (cases "generate_agent_responses orc selected l")
  define orc1 where "orc1 = update_memory_and_reflection orc rs"
  obtain res g1 where ms: "moderator_step orc1 g = (res, g1)" by (cases "moderator_step orc1 g")
  obtain orc2 where r: "res = Inr orc2"
    using assms(1) gr ms by (cases res) (simp_all add: speak_def orc1_def [symmetric])
  obtain cont orc3 g2 where sc: "should_continue_debate orc2 g1 = (cont, orc3, g2)"
    by (cases "should_continue_debate orc2 g1") auto
  have e: "rd_responses rd = rs" "orc' = orc3"
    using assms(1) gr ms r sc by (auto simp: speak_def orc1_def [symmetric])
  note mf = moderator_step_frame [OF ms [unfolded r]]
  have l2: "j < length (agents orc2)"
    using assms(2) mf update_memory_and_reflection_length [of orc rs] by (simp add: orc1_def)
  have "memory (agents orc3 ! j) = memory (agents orc1 ! j)"
    using should_continue_debate_memory [OF sc l2] mf by simp
  then have "m \<in> set (memory (agents (update_memory_and_reflection orc rs) ! j))"
    using assms(3) e by (simp add: orc1_def)
  then show ?thesis
    using update_memory_and_reflection_entries [OF assms(2)] e by blast
qed

text \<open>
  A round that produces responses applies no decay: afterwards every memory entry of an
  agent is either an entry the agent had before the round, unchanged, or an entry recorded
  in this round, of age 0. The decay runs in \<^verbatim>\<open>reflect\<close> only, which \<^verbatim>\<open>end_debate\<close> calls.
\<close>

lemma round_applies_no_decay:
  assumes "run_debate_round orc g l = (Inr (Round rd), orc', g', l')"
    and "j < length (agents orc)" and "m \<in> set (memory (agents orc' ! j))"
  shows "m \<in> set (memory (agents orc ! j))
         \<or> (decay_rounds m = 0 \<and> mem_content m \<in> snd ` set (rd_responses rd))"
proof -
  obtain cont orc1 g1 where sc: "should_continue_debate orc g = (cont, orc1, g1)"
    by (cases "should_continue_debate orc g") auto
  have ct: cont
  proof (rule ccontr)
    assume "\<not> cont"
    then have "run_debate_round orc g l = ended orc1 g1 l"
      using sc by (simp add: run_debate_round_def)
    then show False using assms(1) by (metis ended_not_round)
  qed
  have o1: "orc1 = orc\<lparr>agents := map reduce_cooldown (agents orc)\<rparr>"
    using should_continue_debate_cases [OF sc] ct by blast
  define orc2 where "orc2 = orc1\<lparr>round_count := round_count orc1 + 1\<rparr>"
  obtain scores orc3 g2 where c: "collect_intent_to_speak orc2 g1 = (scores, orc3, g2)"
    by (cases "collect_intent_to_speak orc2 g1") auto
  have o3: "orc3 = orc\<lparr>agents := map reduce_cooldown (map reduce_cooldown (agents orc)),
                       round_count := round_count orc + 1\<rparr>"
    using collect_intent_to_speak_parts(3) [OF c] o1 by (simp add: orc2_def)
  obtain res g3 where sel: "select_speakers orc3 scores g2 = (res, g3)"
    by (cases "select_speakers orc3 scores g2")
  have e0: "run_debate_round orc g l =
      (if scores = [] then ended orc3 g2 l
       else case res of Inl e \<Rightarrow> (Inl e, orc3, g3, l)
            | Inr selected \<Rightarrow> if selected = [] then ended orc3 g3 l
                              else speak orc3 (sorted_desc snd scores) selected g3 l)"
    using sc ct c sel by (simp add: run_debate_round_def Let_def orc2_def [symmetric])
  have ne: "scores \<noteq> []"
  proof
    assume "scores = []"
    then have "run_debate_round orc g l = ended orc3 g2 l" using e0 by simp
    then show False using assms(1) by (metis ended_not_round)
  qed
  obtain selected where r: "res = Inr selected"
    using e0 ne assms(1) by (cases res) simp_all
  have ns: "selected \<noteq> []"
  proof
    assume "selected = []"
    then have "run_debate_round orc g l = ended orc3 g3 l" using e0 ne r by simp
    then show False using assms(1) by (metis ended_not_round)
  qed
  have sp: "speak orc3 (sorted_desc snd scores) selected g3 l = (Inr (Round rd), orc', g', l')"
    using e0 ne r ns assms(1) by simp
  have j3: "j < length (agents orc3)" using assms(2) o3 by simp
  have "memory (agents orc3 ! j) = memory (agents orc ! j)"
    using assms(2) o3 by (simp add: memory_reduce_cooldown)
  then show ?thesis
    using speak_entries [OF sp j3 assms(3)] by simp
qed

end
